theory Spec2Isabelle
  imports Main "HOL-Library.Word" "HOL-Library.Monad_Syntax"
begin

unbundle bit_operations_syntax

section \<open>The position core of the engine (src/src/chess.cpp)\<close>

text \<open>
  The file \<^verbatim>\<open>chess.cpp\<close> implements the member functions of \<^verbatim>\<open>Board\<close>:
  the loader \<^verbatim>\<open>applyFen\<close>, the move engine \<^verbatim>\<open>makeMove\<close>/\<^verbatim>\<open>unmakeMove\<close>,
  the null-move pair and the piece primitives. The class declaration, the enums,
  the Zobrist tables and the evaluator live in headers that are not part of the
  sources at hand; what the functions below need of them is either a parameter
  (\<open>Tables\<close>) or a small definition marked as modelled.
\<close>

subsection \<open>Enumerations and squares\<close>

datatype Color = White | Black

datatype PieceType = PAWN | KNIGHT | BISHOP | ROOK | QUEEN | KING | NONETYPE

text \<open>The enum \<^verbatim>\<open>Piece\<close>; its last member \<^verbatim>\<open>None\<close> is written \<open>NoPiece\<close>.\<close>

datatype Piece =
    WhitePawn | WhiteKnight | WhiteBishop | WhiteRook | WhiteQueen | WhiteKing
  | BlackPawn | BlackKnight | BlackBishop | BlackRook | BlackQueen | BlackKing
  | NoPiece

type_synonym Square = nat
type_synonym U64 = "64 word"

text \<open>The bitboard of one square, \<^verbatim>\<open>1ULL << sq\<close>.\<close>

definition sqBit :: "Square \<Rightarrow> U64" where
  "sqBit sq = push_bit sq 1"

definition NO_SQ :: Square where "NO_SQ = 64"
definition MAX_SQ :: Square where "MAX_SQ = 64"

definition FILE_C :: nat where "FILE_C = 2"
definition FILE_D :: nat where "FILE_D = 3"
definition FILE_F :: nat where "FILE_F = 5"
definition FILE_G :: nat where "FILE_G = 6"

text \<open>\<^verbatim>\<open>operator~\<close> on a colour.\<close>

fun flipColor :: "Color \<Rightarrow> Color" where
  "flipColor White = Black"
| "flipColor Black = White"

text \<open>\<^verbatim>\<open>makePiece(type, c)\<close>: the piece of a type and a colour.\<close>

fun makePiece :: "PieceType \<Rightarrow> Color \<Rightarrow> Piece" where
  "makePiece PAWN White = WhitePawn"
| "makePiece KNIGHT White = WhiteKnight"
| "makePiece BISHOP White = WhiteBishop"
| "makePiece ROOK White = WhiteRook"
| "makePiece QUEEN White = WhiteQueen"
| "makePiece KING White = WhiteKing"
| "makePiece PAWN Black = BlackPawn"
| "makePiece KNIGHT Black = BlackKnight"
| "makePiece BISHOP Black = BlackBishop"
| "makePiece ROOK Black = BlackRook"
| "makePiece QUEEN Black = BlackQueen"
| "makePiece KING Black = BlackKing"
| "makePiece NONETYPE c = NoPiece"

fun type_of_piece :: "Piece \<Rightarrow> PieceType" where
  "type_of_piece WhitePawn = PAWN"
| "type_of_piece WhiteKnight = KNIGHT"
| "type_of_piece WhiteBishop = BISHOP"
| "type_of_piece WhiteRook = ROOK"
| "type_of_piece WhiteQueen = QUEEN"
| "type_of_piece WhiteKing = KING"
| "type_of_piece BlackPawn = PAWN"
| "type_of_piece BlackKnight = KNIGHT"
| "type_of_piece BlackBishop = BISHOP"
| "type_of_piece BlackRook = ROOK"
| "type_of_piece BlackQueen = QUEEN"
| "type_of_piece BlackKing = KING"
| "type_of_piece NoPiece = NONETYPE"

text \<open>The position of a piece in its enum, for \<^verbatim>\<open>piece < BlackPawn\<close> and \<^verbatim>\<open>piece / 6\<close>.\<close>

fun piece_index :: "Piece \<Rightarrow> nat" where
  "piece_index WhitePawn = 0"
| "piece_index WhiteKnight = 1"
| "piece_index WhiteBishop = 2"
| "piece_index WhiteRook = 3"
| "piece_index WhiteQueen = 4"
| "piece_index WhiteKing = 5"
| "piece_index BlackPawn = 6"
| "piece_index BlackKnight = 7"
| "piece_index BlackBishop = 8"
| "piece_index BlackRook = 9"
| "piece_index BlackQueen = 10"
| "piece_index BlackKing = 11"
| "piece_index NoPiece = 12"

text \<open>\<^verbatim>\<open>piece < BlackPawn ? White : Black\<close>, as the evaluator calls pass it.\<close>

definition accColor :: "Piece \<Rightarrow> Color" where
  "accColor piece = (if piece_index piece < piece_index BlackPawn then White else Black)"

definition square_file :: "Square \<Rightarrow> nat" where
  "square_file sq = sq mod 8"

definition square_rank :: "Square \<Rightarrow> nat" where
  "square_rank sq = sq div 8"

definition file_rank_square :: "nat \<Rightarrow> nat \<Rightarrow> Square" where
  "file_rank_square f r = r * 8 + f"

subsection \<open>Moves, history entries and the board\<close>

text \<open>
  A move exposes \<^verbatim>\<open>from(move)\<close>, \<^verbatim>\<open>to(move)\<close>, \<^verbatim>\<open>piece(move)\<close> and
  \<^verbatim>\<open>promoted(move)\<close>.
\<close>

record Move =
  move_from :: Square
  move_to :: Square
  move_piece :: PieceType
  move_promoted :: bool

text \<open>\<^verbatim>\<open>State(enPassant, castling, halfMove, capturedPiece)\<close>.\<close>

record State =
  enPassant :: Square
  castling :: "8 word"
  halfMove :: "8 word"
  capturedPiece :: Piece

text \<open>
  The members of \<^verbatim>\<open>Board\<close> that the functions of this file read or write. The
  three histories are vectors; the newest entry is the last one.
\<close>

record Board =
  piecesBB :: "Piece \<Rightarrow> U64"
  board :: "Square \<Rightarrow> Piece"
  sideToMove :: Color
  enPassantSquare :: Square
  castlingRights :: "8 word"
  halfMoveClock :: "8 word"
  fullMoveNumber :: "16 word"
  hashKey :: U64
  pawnKey :: U64
  stateHistory :: "State list"
  hashHistory :: "U64 list"
  pawnKeyHistory :: "U64 list"

text \<open>
  The tables of the headers, taken as parameters: the Zobrist constants behind
  \<^verbatim>\<open>updateKeyPiece\<close>, \<^verbatim>\<open>updateKeyEnPassant\<close>, \<^verbatim>\<open>updateKeyCastling\<close> and
  \<^verbatim>\<open>updateKeySideToMove\<close>, and \<^verbatim>\<open>NNUE::KING_BUCKET\<close>.
\<close>

record Tables =
  pieceKeys :: "Piece \<Rightarrow> Square \<Rightarrow> U64"
  enPassantKeys :: "nat \<Rightarrow> U64"
  castlingKeys :: "8 word \<Rightarrow> U64"
  sideKey :: U64
  KING_BUCKET :: "nat \<Rightarrow> nat"

definition updateKeyPiece :: "Tables \<Rightarrow> Piece \<Rightarrow> Square \<Rightarrow> U64" where
  "updateKeyPiece T piece sq = pieceKeys T piece sq"

text \<open>Modelled from the spec: \<^verbatim>\<open>updateKeyEnPassant\<close>, a constant per en-passant file.\<close>

definition updateKeyEnPassant :: "Tables \<Rightarrow> Square \<Rightarrow> U64" where
  "updateKeyEnPassant T sq = enPassantKeys T (square_file sq)"

text \<open>
  Modelled from the spec: \<^verbatim>\<open>updateKeyCastling\<close>, a constant per configuration of the
  castling rights, keyed by the current rights.
\<close>

definition updateKeyCastling :: "Tables \<Rightarrow> Board \<Rightarrow> U64" where
  "updateKeyCastling T b = castlingKeys T (castlingRights b)"

definition updateKeySideToMove :: "Tables \<Rightarrow> U64" where
  "updateKeySideToMove T = sideKey T"

text \<open>The castling-right bits \<^verbatim>\<open>wk\<close>, \<^verbatim>\<open>wq\<close>, \<^verbatim>\<open>bk\<close>, \<^verbatim>\<open>bq\<close>.\<close>

definition wk :: "8 word" where "wk = 1"
definition wq :: "8 word" where "wq = 2"
definition bk :: "8 word" where "bk = 4"
definition bq :: "8 word" where "bq = 8"

text \<open>
  Modelled from the spec: \<^verbatim>\<open>removeCastlingRightsAll\<close> clears both rights of a colour.
\<close>

definition removeCastlingRightsAll :: "Color \<Rightarrow> Board \<Rightarrow> Board" where
  "removeCastlingRightsAll c b =
     (case c of
        White \<Rightarrow> b\<lparr>castlingRights := castlingRights b AND NOT (wk OR wq)\<rparr>
      | Black \<Rightarrow> b\<lparr>castlingRights := castlingRights b AND NOT (bk OR bq)\<rparr>)"

text \<open>
  Modelled from the spec: \<^verbatim>\<open>removeCastlingRightsRook\<close> clears the single right that
  belongs to a rook's home square (a1, h1, a8, h8).
\<close>

definition removeCastlingRightsRook :: "Square \<Rightarrow> Board \<Rightarrow> Board" where
  "removeCastlingRightsRook sq b =
     (if sq = 0 then b\<lparr>castlingRights := castlingRights b AND NOT wq\<rparr>
      else if sq = 7 then b\<lparr>castlingRights := castlingRights b AND NOT wk\<rparr>
      else if sq = 56 then b\<lparr>castlingRights := castlingRights b AND NOT bq\<rparr>
      else if sq = 63 then b\<lparr>castlingRights := castlingRights b AND NOT bk\<rparr>
      else b)"

text \<open>
  Modelled from the spec: \<^verbatim>\<open>colorOf(sq)\<close>, the colour of the piece on a square; an
  empty square has none.
\<close>

definition colorOf :: "Board \<Rightarrow> Square \<Rightarrow> Color option" where
  "colorOf b sq =
     (if board b sq = NoPiece then None
      else if piece_index (board b sq) div 6 = 0 then Some White else Some Black)"

text \<open>\<^verbatim>\<open>pieces(type, c)\<close>: the bitboard of a piece type of a colour.\<close>

definition pieces :: "Board \<Rightarrow> PieceType \<Rightarrow> Color \<Rightarrow> U64" where
  "pieces b pt c = piecesBB b (makePiece pt c)"

text \<open>\<^verbatim>\<open>lsb\<close>: the index of the lowest set bit, 64 when there is none.\<close>

definition lsb :: "U64 \<Rightarrow> Square" where
  "lsb bb = (case filter (bit bb) [0..<64] of [] \<Rightarrow> 64 | i # _ \<Rightarrow> i)"

text \<open>
  The attack table \<^verbatim>\<open>PawnAttacks(sq, c)\<close>: the squares a pawn of colour \<open>c\<close> on
  \<open>sq\<close> attacks, one rank ahead on the two neighbouring files.
\<close>

definition PawnAttacks :: "Square \<Rightarrow> Color \<Rightarrow> U64" where
  "PawnAttacks sq c =
     (case c of
        White \<Rightarrow>
          (if 0 < square_file sq \<and> sq + 7 < 64 then sqBit (sq + 7) else 0) OR
          (if square_file sq < 7 \<and> sq + 9 < 64 then sqBit (sq + 9) else 0)
      | Black \<Rightarrow>
          (if 0 < square_file sq \<and> 9 \<le> sq then sqBit (sq - 9) else 0) OR
          (if square_file sq < 7 \<and> 7 \<le> sq then sqBit (sq - 7) else 0))"

subsection \<open>The evaluator, as the calls made on it\<close>

text \<open>
  The network is opaque to this file. Its state is modelled by the calls it has
  received, oldest first; \<open>Refresh\<close> carries the board it was given.
\<close>

datatype NnueCall =
    Push
  | Pull
  | Refresh Board
  | ResetAccumulators
  | AccumulatorAdd PieceType Color Square Square Square
  | AccumulatorRemove PieceType Color Square Square Square
  | AccumulatorMove PieceType Color Square Square Square Square

type_synonym Net = "NnueCall list"

definition refresh :: "Board \<Rightarrow> Net \<Rightarrow> Net" where
  "refresh b nnue = nnue @ [Refresh b]"

subsection \<open>Piece primitives\<close>

definition removePiece :: "Piece \<Rightarrow> Square \<Rightarrow> Board \<Rightarrow> Board" where
  "removePiece piece sq b =
     b\<lparr>piecesBB := (piecesBB b)(piece := piecesBB b piece AND NOT (sqBit sq)),
       board := (board b)(sq := NoPiece)\<rparr>"

definition placePiece :: "Piece \<Rightarrow> Square \<Rightarrow> Board \<Rightarrow> Board" where
  "placePiece piece sq b =
     b\<lparr>piecesBB := (piecesBB b)(piece := piecesBB b piece OR sqBit sq),
       board := (board b)(sq := piece)\<rparr>"

definition movePiece :: "Piece \<Rightarrow> Square \<Rightarrow> Square \<Rightarrow> Board \<Rightarrow> Board" where
  "movePiece piece fromSq toSq b =
     b\<lparr>piecesBB := (piecesBB b)
          (piece := (piecesBB b piece AND NOT (sqBit fromSq)) OR sqBit toSq),
       board := ((board b)(fromSq := NoPiece))(toSq := piece)\<rparr>"

text \<open>The templated primitives: the same mutation, and the evaluator call when enabled.\<close>

definition removePieceT ::
  "bool \<Rightarrow> Piece \<Rightarrow> Square \<Rightarrow> Square \<Rightarrow> Square \<Rightarrow> Board \<times> Net \<Rightarrow> Board \<times> Net" where
  "removePieceT updateNNUE piece sq kSQ_White kSQ_Black bn =
     (let b = removePiece piece sq (fst bn)
      in (b, if updateNNUE
             then snd bn @ [AccumulatorRemove (type_of_piece piece) (accColor piece) sq kSQ_White kSQ_Black]
             else snd bn))"

definition placePieceT ::
  "bool \<Rightarrow> Piece \<Rightarrow> Square \<Rightarrow> Square \<Rightarrow> Square \<Rightarrow> Board \<times> Net \<Rightarrow> Board \<times> Net" where
  "placePieceT updateNNUE piece sq kSQ_White kSQ_Black bn =
     (let b = placePiece piece sq (fst bn)
      in (b, if updateNNUE
             then snd bn @ [AccumulatorAdd (type_of_piece piece) (accColor piece) sq kSQ_White kSQ_Black]
             else snd bn))"

text \<open>\<^verbatim>\<open>static_cast<bool>(sideToMove) * 56\<close>.\<close>

definition sideFlip :: "Color \<Rightarrow> nat" where
  "sideFlip c = (case c of White \<Rightarrow> 0 | Black \<Rightarrow> 56)"

text \<open>
  The test shared by the castling branch of \<^verbatim>\<open>makeMove\<close> and by \<^verbatim>\<open>movePiece\<close>:
  the king's bucket changes, or the files of the two squares add up to 7.
\<close>

definition bucketCrossing :: "Tables \<Rightarrow> Color \<Rightarrow> Square \<Rightarrow> Square \<Rightarrow> bool" where
  "bucketCrossing T c fromSq toSq =
     (KING_BUCKET T (fromSq XOR sideFlip c) \<noteq> KING_BUCKET T (toSq XOR sideFlip c) \<or>
      square_file fromSq + square_file toSq = 7)"

definition movePieceT ::
  "Tables \<Rightarrow> bool \<Rightarrow> Piece \<Rightarrow> Square \<Rightarrow> Square \<Rightarrow> Square \<Rightarrow> Square \<Rightarrow> Board \<times> Net \<Rightarrow> Board \<times> Net" where
  "movePieceT T updateNNUE piece fromSq toSq kSQ_White kSQ_Black bn =
     (let b = movePiece piece fromSq toSq (fst bn)
      in (b, if updateNNUE
             then (if type_of_piece piece = KING \<and> bucketCrossing T (sideToMove b) fromSq toSq
                   then refresh b (snd bn)
                   else snd bn @ [AccumulatorMove (type_of_piece piece) (accColor piece) fromSq toSq kSQ_White kSQ_Black])
             else snd bn))"

subsection \<open>makeMove\<close>

text \<open>
  An \<^verbatim>\<open>assert\<close> that fails aborts the call: the result is \<open>None\<close>, as it is for a
  read of \<^verbatim>\<open>back()\<close> on an empty history.
\<close>

definition assertThat :: "bool \<Rightarrow> 'a \<Rightarrow> 'a option" where
  "assertThat c x = (if c then Some x else None)"

definition xorHashKey :: "U64 \<Rightarrow> Board \<Rightarrow> Board" where
  "xorHashKey k b = b\<lparr>hashKey := hashKey b XOR k\<rparr>"

definition xorPawnKey :: "U64 \<Rightarrow> Board \<Rightarrow> Board" where
  "xorPawnKey k b = b\<lparr>pawnKey := pawnKey b XOR k\<rparr>"

text \<open>The five assertions at the head of \<^verbatim>\<open>makeMove\<close>.\<close>

definition makeMove_entry :: "Board \<Rightarrow> Move \<Rightarrow> bool" where
  "makeMove_entry b move =
     (let pt = move_piece move;
          p = makePiece pt (sideToMove b);
          capture = board b (move_to move)
      in move_from move < MAX_SQ \<and> move_to move < MAX_SQ \<and>
         type_of_piece capture \<noteq> KING \<and> p \<noteq> NoPiece \<and>
         ((move_promoted move \<and> (pt \<noteq> PAWN \<and> pt \<noteq> KING)) \<or> \<not> move_promoted move))"

text \<open>STORE STATE HISTORY, then the two counters.\<close>

definition storeHistory :: "Piece \<Rightarrow> Board \<Rightarrow> Board" where
  "storeHistory capture b =
     b\<lparr>hashHistory := hashHistory b @ [hashKey b],
       stateHistory := stateHistory b @
         [\<lparr>enPassant = enPassantSquare b, castling = castlingRights b,
           halfMove = halfMoveClock b, capturedPiece = capture\<rparr>],
       pawnKeyHistory := pawnKeyHistory b @ [pawnKey b]\<rparr>"

definition bumpCounters :: "Board \<Rightarrow> Board" where
  "bumpCounters b =
     b\<lparr>halfMoveClock := halfMoveClock b + 1, fullMoveNumber := fullMoveNumber b + 1\<rparr>"

definition isCastlingMove :: "Board \<Rightarrow> Move \<Rightarrow> bool" where
  "isCastlingMove b move =
     (move_piece move = KING \<and> type_of_piece (board b (move_to move)) = ROOK \<and>
      colorOf b (move_from move) = colorOf b (move_to move))"

text \<open>UPDATE HASH: the outgoing en-passant square and the old castling rights.\<close>

definition hashClearEnPassant :: "Tables \<Rightarrow> Board \<Rightarrow> Board" where
  "hashClearEnPassant T b =
     (let b = (if enPassantSquare b \<noteq> NO_SQ
               then xorHashKey (updateKeyEnPassant T (enPassantSquare b)) b else b);
          b = b\<lparr>enPassantSquare := NO_SQ\<rparr>
      in xorHashKey (updateKeyCastling T b) b)"

definition castlingRook :: "Color \<Rightarrow> Piece" where
  "castlingRook c = (if c = White then WhiteRook else BlackRook)"

definition castlingRookSq :: "Square \<Rightarrow> Square \<Rightarrow> Square" where
  "castlingRookSq from_sq to_sq =
     file_rank_square (if to_sq > from_sq then FILE_F else FILE_D) (square_rank from_sq)"

definition castlingKingSq :: "Square \<Rightarrow> Square \<Rightarrow> Square" where
  "castlingKingSq from_sq to_sq =
     file_rank_square (if to_sq > from_sq then FILE_G else FILE_C) (square_rank from_sq)"

text \<open>The block \<^verbatim>\<open>if (isCastling) { ... }\<close> of the hash update.\<close>

definition hashCastlingRook :: "Tables \<Rightarrow> Move \<Rightarrow> bool \<Rightarrow> Board \<Rightarrow> Board option" where
  "hashCastlingRook T move isCastling b =
     (if isCastling then
        (let rook = castlingRook (sideToMove b);
             rookSQ = castlingRookSq (move_from move) (move_to move)
         in if type_of_piece (board b (move_to move)) = ROOK
            then Some (xorHashKey (updateKeyPiece T rook rookSQ)
                        (xorHashKey (updateKeyPiece T rook (move_to move)) b))
            else None)
      else Some b)"

text \<open>The chain \<^verbatim>\<open>if (pt == KING) ... else if (pt == ROOK) ... else if (pt == PAWN) ...\<close>.\<close>

definition updateByPieceType :: "Tables \<Rightarrow> Move \<Rightarrow> bool \<Rightarrow> Board \<Rightarrow> Board option" where
  "updateByPieceType T move ep b =
     (let pt = move_piece move; from_sq = move_from move; to_sq = move_to move
      in if pt = KING then Some (removeCastlingRightsAll (sideToMove b) b)
         else if pt = ROOK then Some (removeCastlingRightsRook from_sq b)
         else if pt = PAWN then
           (let b = b\<lparr>halfMoveClock := 0\<rparr>
            in if ep then
                 Some (xorHashKey
                   (updateKeyPiece T (makePiece PAWN (flipColor (sideToMove b))) (to_sq XOR 8)) b)
               else if \<bar>int from_sq - int to_sq\<bar> = 16 then
                 (let epMask = PawnAttacks (to_sq XOR 8) (sideToMove b)
                  in if epMask AND pieces b PAWN (flipColor (sideToMove b)) \<noteq> 0 then
                       (let b = b\<lparr>enPassantSquare := to_sq XOR 8\<rparr>;
                            b = xorHashKey (updateKeyEnPassant T (enPassantSquare b)) b
                        in assertThat (board b (enPassantSquare b) = NoPiece) b)
                     else Some b)
               else Some b)
         else Some b)"

text \<open>The block \<^verbatim>\<open>if (capture != None && !isCastling)\<close> of the hash update.\<close>

definition hashCapture :: "Tables \<Rightarrow> Move \<Rightarrow> Piece \<Rightarrow> bool \<Rightarrow> Board \<Rightarrow> Board" where
  "hashCapture T move capture isCastling b =
     (if capture \<noteq> NoPiece \<and> \<not> isCastling then
        (let b = b\<lparr>halfMoveClock := 0\<rparr>;
             b = xorHashKey (updateKeyPiece T capture (move_to move)) b
         in if type_of_piece capture = ROOK then removeCastlingRightsRook (move_to move) b else b)
      else b)"

text \<open>The block \<^verbatim>\<open>if (promoted(move)) ... else ...\<close> of the hash update.\<close>

definition hashMover :: "Tables \<Rightarrow> Move \<Rightarrow> Board \<Rightarrow> Board" where
  "hashMover T move b =
     (let pt = move_piece move; p = makePiece pt (sideToMove b);
          from_sq = move_from move; to_sq = move_to move
      in if move_promoted move then
           (let b = b\<lparr>halfMoveClock := 0\<rparr>;
                b = xorHashKey (updateKeyPiece T (makePiece PAWN (sideToMove b)) from_sq) b;
                b = xorHashKey (updateKeyPiece T p to_sq) b
            in if pt = PAWN then
                 xorPawnKey (updateKeyPiece T p to_sq)
                   (xorPawnKey (updateKeyPiece T (makePiece PAWN (sideToMove b)) from_sq) b)
               else b)
         else
           (let b = xorHashKey (updateKeyPiece T p from_sq) b;
                b = xorHashKey (updateKeyPiece T p to_sq) b
            in if pt = PAWN then
                 xorPawnKey (updateKeyPiece T p to_sq) (xorPawnKey (updateKeyPiece T p from_sq) b)
               else b))"

text \<open>The closing two lines of the hash update.\<close>

definition hashSideAndCastling :: "Tables \<Rightarrow> Board \<Rightarrow> Board" where
  "hashSideAndCastling T b =
     (let b = xorHashKey (updateKeySideToMove T) b
      in xorHashKey (updateKeyCastling T b) b)"

text \<open>
  UPDATE PIECES, first chain: castling, en-passant capture, ordinary capture.
\<close>

definition piecesCapture ::
  "Tables \<Rightarrow> bool \<Rightarrow> Move \<Rightarrow> bool \<Rightarrow> bool \<Rightarrow> Piece \<Rightarrow> Square \<Rightarrow> Square \<Rightarrow>
   Board \<times> Net \<Rightarrow> (Board \<times> Net) option" where
  "piecesCapture T updateNNUE move ep isCastling capture kSQ_White kSQ_Black bn =
     (let b = fst bn; nnue = snd bn;
          pt = move_piece move; p = makePiece pt (sideToMove b);
          from_sq = move_from move; to_sq = move_to move
      in if isCastling then
           (let rook = castlingRook (sideToMove b);
                rookToSq = castlingRookSq from_sq to_sq;
                kingToSq = castlingKingSq from_sq to_sq
            in if updateNNUE \<and> bucketCrossing T (sideToMove b) from_sq kingToSq then
                 (let b = removePiece p from_sq b;
                      b = removePiece rook to_sq b;
                      b = placePiece p kingToSq b;
                      b = placePiece rook rookToSq b
                  in Some (b, refresh b nnue))
               else
                 Some (placePieceT updateNNUE rook rookToSq kSQ_White kSQ_Black
                        (placePieceT updateNNUE p kingToSq kSQ_White kSQ_Black
                          (removePieceT updateNNUE rook to_sq kSQ_White kSQ_Black
                            (removePieceT updateNNUE p from_sq kSQ_White kSQ_Black bn)))))
         else if pt = PAWN \<and> ep then
           (if board b (to_sq XOR 8) \<noteq> NoPiece
            then Some (removePieceT updateNNUE (makePiece PAWN (flipColor (sideToMove b)))
                        (to_sq XOR 8) kSQ_White kSQ_Black bn)
            else None)
         else if capture \<noteq> NoPiece \<and> \<not> isCastling then
           (if board b to_sq \<noteq> NoPiece then
              (let b = (if capture = WhitePawn \<or> capture = BlackPawn
                        then xorPawnKey (updateKeyPiece T capture to_sq) b else b)
               in Some (removePieceT updateNNUE capture to_sq kSQ_White kSQ_Black (b, nnue)))
            else None)
         else Some bn)"

text \<open>UPDATE PIECES, second chain: promotion, or the move of the piece itself.\<close>

definition piecesMover ::
  "Tables \<Rightarrow> bool \<Rightarrow> Move \<Rightarrow> bool \<Rightarrow> Square \<Rightarrow> Square \<Rightarrow>
   Board \<times> Net \<Rightarrow> (Board \<times> Net) option" where
  "piecesMover T updateNNUE move isCastling kSQ_White kSQ_Black bn =
     (let b = fst bn;
          pt = move_piece move; p = makePiece pt (sideToMove b);
          from_sq = move_from move; to_sq = move_to move
      in if move_promoted move then
           (if board b to_sq = NoPiece then
              Some (placePieceT updateNNUE p to_sq kSQ_White kSQ_Black
                     (removePieceT updateNNUE (makePiece PAWN (sideToMove b)) from_sq
                        kSQ_White kSQ_Black bn))
            else None)
         else if \<not> isCastling then
           (if board b to_sq = NoPiece then
              Some (movePieceT T updateNNUE p from_sq to_sq kSQ_White kSQ_Black bn)
            else None)
         else Some bn)"

definition flipSide :: "Board \<Rightarrow> Board" where
  "flipSide b = b\<lparr>sideToMove := flipColor (sideToMove b)\<rparr>"

text \<open>The section UPDATE HASH as a whole.\<close>

definition updateHash ::
  "Tables \<Rightarrow> Move \<Rightarrow> Piece \<Rightarrow> bool \<Rightarrow> bool \<Rightarrow> Board \<Rightarrow> Board option" where
  "updateHash T move capture ep isCastling b =
     do {
       b \<leftarrow> hashCastlingRook T move isCastling (hashClearEnPassant T b);
       b \<leftarrow> updateByPieceType T move ep b;
       Some (hashSideAndCastling T (hashMover T move (hashCapture T move capture isCastling b)))
     }"

text \<open>
  The section UPDATE PIECES as a whole. The two king squares are read from the
  bitboards before any piece is touched.
\<close>

definition updatePieces ::
  "Tables \<Rightarrow> bool \<Rightarrow> Move \<Rightarrow> Piece \<Rightarrow> bool \<Rightarrow> bool \<Rightarrow> Board \<times> Net \<Rightarrow> (Board \<times> Net) option" where
  "updatePieces T updateNNUE move capture ep isCastling bn =
     (let kSQ_White = lsb (pieces (fst bn) KING White);
          kSQ_Black = lsb (pieces (fst bn) KING Black)
      in do {
           bn \<leftarrow> piecesCapture T updateNNUE move ep isCastling capture kSQ_White kSQ_Black bn;
           piecesMover T updateNNUE move isCastling kSQ_White kSQ_Black bn
         })"

definition makeMove :: "Tables \<Rightarrow> bool \<Rightarrow> Move \<Rightarrow> Board \<times> Net \<Rightarrow> (Board \<times> Net) option" where
  "makeMove T updateNNUE move bn =
     (let b = fst bn; nnue = snd bn;
          capture = board b (move_to move)
      in if \<not> makeMove_entry b move then None
         else
           (let b = storeHistory capture b;
                nnue = (if updateNNUE then nnue @ [Push] else nnue);
                b = bumpCounters b;
                ep = (move_to move = enPassantSquare b);
                isCastling = isCastlingMove b move
            in do {
                 b \<leftarrow> updateHash T move capture ep isCastling b;
                 bn \<leftarrow> updatePieces T updateNNUE move capture ep isCastling (b, nnue);
                 Some (flipSide (fst bn), snd bn)
               }))"

subsection \<open>unmakeMove\<close>

text \<open>\<^verbatim>\<open>Square(enPassantSquare + offset)\<close> with an \<^verbatim>\<open>int8_t\<close> offset.\<close>

definition squarePlus :: "Square \<Rightarrow> int \<Rightarrow> Square" where
  "squarePlus sq offset = nat ((int sq + offset) mod 256)"

text \<open>The closing chain of \<^verbatim>\<open>unmakeMove\<close>: the captured piece comes back.\<close>

definition unmakeCapture :: "PieceType \<Rightarrow> Piece \<Rightarrow> bool \<Rightarrow> Square \<Rightarrow> Board \<Rightarrow> Board" where
  "unmakeCapture pt capture isCastling to_sq b =
     (if to_sq = enPassantSquare b \<and> pt = PAWN then
        (let offset = (if sideToMove b = White then - 8 else 8)
         in placePiece (makePiece PAWN (flipColor (sideToMove b)))
              (squarePlus (enPassantSquare b) offset) b)
      else if capture \<noteq> NoPiece \<and> \<not> isCastling then placePiece capture to_sq b
      else b)"

definition popHistory :: "Board \<Rightarrow> Board" where
  "popHistory b =
     b\<lparr>stateHistory := butlast (stateHistory b),
       hashKey := last (hashHistory b),
       hashHistory := butlast (hashHistory b),
       pawnKey := last (pawnKeyHistory b),
       pawnKeyHistory := butlast (pawnKeyHistory b)\<rparr>"

definition restoreState :: "State \<Rightarrow> Board \<Rightarrow> Board" where
  "restoreState restore b =
     b\<lparr>enPassantSquare := enPassant restore,
       castlingRights := castling restore,
       halfMoveClock := halfMove restore,
       fullMoveNumber := fullMoveNumber b - 1\<rparr>"

text \<open>
  The second half of \<^verbatim>\<open>unmakeMove\<close>, from the test for castling on: the pieces go
  back. The promotion branch returns early, past the closing chain.
\<close>

definition unmakePieces :: "Move \<Rightarrow> Piece \<Rightarrow> Board \<Rightarrow> Board" where
  "unmakePieces move capture b =
     (let from_sq = move_from move;
          to_sq = move_to move;
          promotion = move_promoted move;
          pt = move_piece move;
          p = makePiece pt (sideToMove b);
          isCastling = ((p = WhiteKing \<and> capture = WhiteRook) \<or>
                        (p = BlackKing \<and> capture = BlackRook))
      in if isCastling then
           (let rookToSq = to_sq;
                rook = castlingRook (sideToMove b);
                rookFromSq = castlingRookSq from_sq to_sq;
                to_sq = castlingKingSq from_sq to_sq;
                b = removePiece rook rookFromSq b;
                b = removePiece p to_sq b;
                b = placePiece p from_sq b;
                b = placePiece rook rookToSq b
            in unmakeCapture pt capture isCastling to_sq b)
         else if promotion then
           (let b = removePiece p to_sq b;
                b = placePiece (makePiece PAWN (sideToMove b)) from_sq b
            in if capture \<noteq> NoPiece then placePiece capture to_sq b else b)
         else unmakeCapture pt capture isCastling to_sq (movePiece p to_sq from_sq b))"

definition unmakeMove :: "bool \<Rightarrow> Move \<Rightarrow> Board \<times> Net \<Rightarrow> (Board \<times> Net) option" where
  "unmakeMove updateNNUE move bn =
     (let b = fst bn; nnue = snd bn
      in if stateHistory b = [] \<or> hashHistory b = [] \<or> pawnKeyHistory b = [] then None
         else
           (let restore = last (stateHistory b);
                b = popHistory b;
                nnue = (if updateNNUE then nnue @ [Pull] else nnue);
                b = restoreState restore b;
                capture = capturedPiece restore;
                b = flipSide b
            in Some (unmakePieces move capture b, nnue)))"

subsection \<open>Null moves\<close>

definition makeNullMove :: "Tables \<Rightarrow> Board \<Rightarrow> Board" where
  "makeNullMove T b =
     (let b = b\<lparr>stateHistory := stateHistory b @
                 [\<lparr>enPassant = enPassantSquare b, castling = castlingRights b,
                   halfMove = halfMoveClock b, capturedPiece = NoPiece\<rparr>]\<rparr>;
          b = flipSide b;
          b = xorHashKey (updateKeySideToMove T) b;
          b = (if enPassantSquare b \<noteq> NO_SQ
               then xorHashKey (updateKeyEnPassant T (enPassantSquare b)) b else b);
          b = b\<lparr>enPassantSquare := NO_SQ\<rparr>
      in b\<lparr>fullMoveNumber := fullMoveNumber b + 1\<rparr>)"

definition unmakeNullMove :: "Tables \<Rightarrow> Board \<Rightarrow> Board option" where
  "unmakeNullMove T b =
     (if stateHistory b = [] then None
      else
        (let restore = last (stateHistory b);
             b = b\<lparr>stateHistory := butlast (stateHistory b)\<rparr>;
             b = b\<lparr>enPassantSquare := enPassant restore,
                   castlingRights := castling restore,
                   halfMoveClock := halfMove restore\<rparr>;
             b = xorHashKey (updateKeySideToMove T) b;
             b = (if enPassantSquare b \<noteq> NO_SQ
                  then xorHashKey (updateKeyEnPassant T (enPassantSquare b)) b else b);
             b = b\<lparr>fullMoveNumber := fullMoveNumber b - 1\<rparr>
         in Some (flipSide b)))"

subsection \<open>applyFen\<close>

text \<open>
  What the loader can run into: an index past the end of a vector, a string or the
  mailbox (undefined behaviour in the source), and the two exceptions of
  \<^verbatim>\<open>std::stoi\<close>.
\<close>

datatype LoadError = IndexOutOfRange | InvalidArgument | StoiOutOfRange | SignedOverflow

text \<open>
  Modelled from the spec: \<^verbatim>\<open>splitInput\<close> cuts the descriptor into its fields at
  the spaces.
\<close>

fun splitAt :: "char \<Rightarrow> string \<Rightarrow> string \<Rightarrow> string list" where
  "splitAt d acc [] = (if acc = [] then [] else [rev acc])"
| "splitAt d acc (c # cs) = (if c = d then rev acc # splitAt d [] cs else splitAt d (c # acc) cs)"

definition splitInput :: "string \<Rightarrow> string list" where
  "splitInput fen = splitAt CHR '' '' [] fen"

text \<open>\<^verbatim>\<open>params[i]\<close> on the vector of fields.\<close>

definition param :: "string list \<Rightarrow> nat \<Rightarrow> LoadError + string" where
  "param params i = (if i < length params then Inr (params ! i) else Inl IndexOutOfRange)"

text \<open>The table \<^verbatim>\<open>charToPiece\<close> of the piece letters.\<close>

definition charToPiece :: "char \<Rightarrow> Piece option" where
  "charToPiece c =
     (if c = CHR ''P'' then Some WhitePawn else if c = CHR ''N'' then Some WhiteKnight
      else if c = CHR ''B'' then Some WhiteBishop else if c = CHR ''R'' then Some WhiteRook
      else if c = CHR ''Q'' then Some WhiteQueen else if c = CHR ''K'' then Some WhiteKing
      else if c = CHR ''p'' then Some BlackPawn else if c = CHR ''n'' then Some BlackKnight
      else if c = CHR ''b'' then Some BlackBishop else if c = CHR ''r'' then Some BlackRook
      else if c = CHR ''q'' then Some BlackQueen else if c = CHR ''k'' then Some BlackKing
      else None)"

text \<open>The table \<^verbatim>\<open>readCastleString\<close> of the castling letters.\<close>

definition readCastleString :: "char \<Rightarrow> 8 word option" where
  "readCastleString c =
     (if c = CHR ''K'' then Some wk else if c = CHR ''Q'' then Some wq
      else if c = CHR ''k'' then Some bk else if c = CHR ''q'' then Some bq else None)"

definition isdigit :: "char \<Rightarrow> bool" where
  "isdigit c \<longleftrightarrow> 48 \<le> (of_char c :: nat) \<and> (of_char c :: nat) \<le> 57"

definition isspace :: "char \<Rightarrow> bool" where
  "isspace c \<longleftrightarrow> (of_char c :: nat) = 32 \<or> (9 \<le> (of_char c :: nat) \<and> (of_char c :: nat) \<le> 13)"

text \<open>
  \<^verbatim>\<open>std::stoi\<close>: leading white space, an optional sign, then the longest run of
  digits; no digit is \<^verbatim>\<open>std::invalid_argument\<close>, a value outside \<^verbatim>\<open>int\<close> is
  \<^verbatim>\<open>std::out_of_range\<close>.
\<close>

definition digitsValue :: "string \<Rightarrow> int" where
  "digitsValue ds = foldl (\<lambda>v c. 10 * v + (int (of_char c) - 48)) 0 ds"

definition stoi :: "string \<Rightarrow> LoadError + int" where
  "stoi str =
     (let s = dropWhile isspace str;
          neg = (s \<noteq> [] \<and> hd s = CHR ''-'');
          s = (if s \<noteq> [] \<and> (hd s = CHR ''-'' \<or> hd s = CHR ''+'') then tl s else s);
          ds = takeWhile isdigit s;
          v = (if neg then - digitsValue ds else digitsValue ds)
      in if ds = [] then Inl InvalidArgument
         else if v < - (2 ^ 31) \<or> 2 ^ 31 \<le> v then Inl StoiOutOfRange
         else Inr v)"

text \<open>
  The loop over the piece placement. The square is a \<^verbatim>\<open>Square\<close>, eight bits wide;
  a piece placed past h8 would write outside the mailbox.
\<close>

fun placement :: "Tables \<Rightarrow> string \<Rightarrow> Square \<Rightarrow> Board \<Rightarrow> LoadError + Board" where
  "placement T [] square b = Inr b"
| "placement T (ch # cs) square b =
     (case charToPiece ch of
        Some piece \<Rightarrow>
          if 64 \<le> square then Inl IndexOutOfRange
          else
            (let b = placePiece piece square b;
                 b = (if type_of_piece piece = PAWN
                      then xorPawnKey (updateKeyPiece T piece square) b else b)
             in placement T cs (squarePlus square 1) b)
      | None \<Rightarrow>
          if ch = CHR ''/'' then placement T cs (squarePlus square (- 16)) b
          else if isdigit ch
          then placement T cs (squarePlus square (int (of_char ch) - 48)) b
          else placement T cs square b)"

definition castlingFromString :: "string \<Rightarrow> Board \<Rightarrow> Board" where
  "castlingFromString cs b =
     foldl (\<lambda>b c. case readCastleString c of
                     Some r \<Rightarrow> b\<lparr>castlingRights := castlingRights b OR r\<rparr>
                   | None \<Rightarrow> b) b cs"

text \<open>\<^verbatim>\<open>s[i]\<close> on a string: the terminating zero at \<open>i = size\<close>, nothing beyond.\<close>

definition charAt :: "string \<Rightarrow> nat \<Rightarrow> LoadError + int" where
  "charAt s i =
     (if i < length s then Inr (int (of_char (s ! i)))
      else if i = length s then Inr 0 else Inl IndexOutOfRange)"

text \<open>Sequencing of steps that may fail: the first failure is the result.\<close>

definition bindE :: "'e + 'a \<Rightarrow> ('a \<Rightarrow> 'e + 'b) \<Rightarrow> 'e + 'b" where
  "bindE x f = (case x of Inl e \<Rightarrow> Inl e | Inr v \<Rightarrow> f v)"

definition enPassantFromString :: "string \<Rightarrow> LoadError + Square" where
  "enPassantFromString en_passant =
     (if en_passant = ''-'' then Inr NO_SQ
      else
        bindE (charAt en_passant 0) (\<lambda>letter.
        bindE (charAt en_passant 1) (\<lambda>digit.
          (let file = letter - 96; rank = digit - 48
           in Inr (nat (((rank - 1) * 8 + file - 1) mod 256))))))"

text \<open>
  Modelled from the spec: \<^verbatim>\<open>zobristHash\<close> folds the contribution of every piece on
  its square, of the side to move, of the castling rights and of the en-passant
  square, from scratch.
\<close>

definition zobristHash :: "Tables \<Rightarrow> Board \<Rightarrow> U64" where
  "zobristHash T b =
     (let hash = foldl (\<lambda>h sq. if board b sq \<noteq> NoPiece
                               then h XOR updateKeyPiece T (board b sq) sq else h) 0 [0..<64];
          ep_hash = (if enPassantSquare b \<noteq> NO_SQ
                     then updateKeyEnPassant T (enPassantSquare b) else 0);
          turn_hash = (if sideToMove b = White then updateKeySideToMove T else 0);
          cast_hash = updateKeyCastling T b
      in hash XOR cast_hash XOR turn_hash XOR ep_hash)"

text \<open>\<^verbatim>\<open>applyFen\<close> once the descriptor is split.\<close>

definition applyFenFields ::
  "Tables \<Rightarrow> string list \<Rightarrow> Board \<times> Net \<Rightarrow> LoadError + Board \<times> Net" where
  "applyFenFields T params bn =
     (let b = fst bn; nnue = snd bn;
          b = b\<lparr>piecesBB := (\<lambda>p. if p = NoPiece then piecesBB b p else 0)\<rparr>;
          b = b\<lparr>pawnKey := 0\<rparr>
      in bindE (param params 0) (\<lambda>position.
         bindE (param params 1) (\<lambda>move_right.
         bindE (param params 2) (\<lambda>castling_str.
         bindE (param params 3) (\<lambda>en_passant.
         bindE (if length params > 4 then param params 4 else Inr ''0'') (\<lambda>half_move_clock.
         bindE (if length params > 4 then param params 5 else Inr ''1'') (\<lambda>full_move_counter.
           (let b = b\<lparr>sideToMove := (if move_right = ''w'' then White else Black)\<rparr>;
                b = b\<lparr>board := (\<lambda>sq. NoPiece)\<rparr>
            in bindE (placement T position 56 b) (\<lambda>b.
                 (let b = removeCastlingRightsAll Black (removeCastlingRightsAll White b);
                      b = castlingFromString castling_str b
                  in bindE (enPassantFromString en_passant) (\<lambda>ep.
                       (let b = b\<lparr>enPassantSquare := ep\<rparr>
                        in bindE (stoi half_move_clock) (\<lambda>hm.
                           bindE (stoi full_move_counter) (\<lambda>fm.
                             if fm * 2 < - (2 ^ 31) \<or> 2 ^ 31 \<le> fm * 2 then Inl SignedOverflow
                             else
                               (let b = b\<lparr>halfMoveClock := word_of_int hm\<rparr>;
                                    b = b\<lparr>fullMoveNumber := word_of_int (fm * 2)\<rparr>;
                                    b = b\<lparr>hashKey := zobristHash T b\<rparr>;
                                    b = b\<lparr>hashHistory := [], pawnKeyHistory := [],
                                          stateHistory := []\<rparr>;
                                    b = b\<lparr>hashHistory := hashHistory b @ [hashKey b],
                                          pawnKeyHistory := pawnKeyHistory b @ [pawnKey b]\<rparr>
                                in Inr (b, refresh b nnue @ [ResetAccumulators]))))))))))))))))"

definition applyFen :: "Tables \<Rightarrow> string \<Rightarrow> Board \<times> Net \<Rightarrow> LoadError + Board \<times> Net" where
  "applyFen T fen bn = applyFenFields T (splitInput fen) bn"

text \<open>
  The constructor \<^verbatim>\<open>Board::Board\<close>: the members it sets before it calls
  \<^verbatim>\<open>applyFen\<close>; the arrays and keys it leaves unset are written by the loader.
\<close>

definition newBoard :: Board where
  "newBoard =
     \<lparr>piecesBB = (\<lambda>p. 0), board = (\<lambda>sq. NoPiece), sideToMove = White,
      enPassantSquare = NO_SQ, castlingRights = wk OR wq OR bk OR bq, halfMoveClock = 0,
      fullMoveNumber = 1, hashKey = 0, pawnKey = 0, stateHistory = [], hashHistory = [],
      pawnKeyHistory = []\<rparr>"

subsection \<open>Sample tables and positions\<close>

text \<open>
  A table set to run the functions on: every Zobrist constant distinct, a single king
  bucket. The general theorems below hold for every table set; this one serves where a
  concrete run is shown.
\<close>

definition demoTables :: Tables where
  "demoTables =
     \<lparr>pieceKeys = (\<lambda>pc sq. word_of_nat ((piece_index pc + 1) * 64 + sq)),
      enPassantKeys = (\<lambda>f. word_of_nat (1000 + f)),
      castlingKeys = (\<lambda>r. 2000 + ucast r),
      sideKey = 4096,
      KING_BUCKET = (\<lambda>sq. 0)\<rparr>"

definition emptyBoard :: Board where
  "emptyBoard =
     \<lparr>piecesBB = (\<lambda>p. 0), board = (\<lambda>sq. NoPiece), sideToMove = White,
      enPassantSquare = NO_SQ, castlingRights = 0, halfMoveClock = 0,
      fullMoveNumber = 2, hashKey = 0, pawnKey = 0, stateHistory = [], hashHistory = [0],
      pawnKeyHistory = [0]\<rparr>"

text \<open>White: Ke1, Rh1. Black: Ke8. White to move and entitled to castle king side.\<close>

definition castlePosition :: Board where
  "castlePosition =
     (placePiece WhiteRook 7 (placePiece WhiteKing 4 (placePiece BlackKing 60 emptyBoard)))
       \<lparr>castlingRights := wk\<rparr>"

text \<open>The king-side castling move of White: the king on e1 takes its rook on h1.\<close>

definition whiteCastlesShort :: Move where
  "whiteCastlesShort = \<lparr>move_from = 4, move_to = 7, move_piece = KING, move_promoted = False\<rparr>"

text \<open>White: Ke1, pawn e2. Black: Ke8, pawn d4. White to move.\<close>

definition pushPosition :: Board where
  "pushPosition =
     placePiece BlackPawn 27 (placePiece WhitePawn 12
       (placePiece WhiteKing 4 (placePiece BlackKing 60 emptyBoard)))"

text \<open>The advance e2-e4.\<close>

definition pawnE2E4 :: Move where
  "pawnE2E4 = \<lparr>move_from = 12, move_to = 28, move_piece = PAWN, move_promoted = False\<rparr>"

text \<open>White: Ke1, pawn a7. Black: Ke8. White to move.\<close>

definition promotionPosition :: Board where
  "promotionPosition =
     placePiece WhitePawn 48 (placePiece WhiteKing 4 (placePiece BlackKing 60 emptyBoard))"

text \<open>The promotion a7-a8, to a queen.\<close>

definition pawnA7A8Queen :: Move where
  "pawnA7A8Queen = \<lparr>move_from = 48, move_to = 56, move_piece = QUEEN, move_promoted = True\<rparr>"

text \<open>The descriptor of \<open>castlePosition\<close>.\<close>

definition castleDescriptor :: string where
  "castleDescriptor = ''4k3/8/8/8/8/8/8/4K2R w K - 0 1''"



section \<open>Invariant and move contract\<close>

text \<open>
  Mailbox and bitboards agree: on every square, the bitboard of a piece has the
  square's bit exactly when the mailbox holds that piece there.
\<close>

definition consistent :: "Board \<Rightarrow> bool" where
  "consistent b \<longleftrightarrow>
     (\<forall>sq pc. sq < 64 \<longrightarrow> pc \<noteq> NoPiece \<longrightarrow> (bit (piecesBB b pc) sq \<longleftrightarrow> board b sq = pc))"

text \<open>
  What \<^verbatim>\<open>makeMove\<close> takes for granted of a move handed to it by the move generator
  (legality itself is not checked anywhere in this file):
  the squares are on the board and differ; the origin holds the moving piece (the
  pawn, for a promotion); the destination holds no king; and the move has one of
  three shapes: castling, written as the king taking its own rook, with the two
  landing squares free; an en-passant capture onto the en-passant square, with the
  enemy pawn behind it; or a move to an empty square or onto an enemy piece. A
  two-square pawn advance passes over an empty square.
\<close>

definition moveContract :: "Board \<Rightarrow> Move \<Rightarrow> bool" where
  "moveContract b move \<longleftrightarrow>
     (let pt = move_piece move; stm = sideToMove b; p = makePiece pt stm;
          from_sq = move_from move; to_sq = move_to move; capture = board b to_sq
      in from_sq < 64 \<and> to_sq < 64 \<and> from_sq \<noteq> to_sq \<and> pt \<noteq> NONETYPE \<and>
         type_of_piece capture \<noteq> KING \<and>
         (if move_promoted move
          then pt \<noteq> PAWN \<and> pt \<noteq> KING \<and> board b from_sq = makePiece PAWN stm
          else board b from_sq = p) \<and>
         (pt = PAWN \<and> \<bar>int from_sq - int to_sq\<bar> = 16 \<longrightarrow> board b (to_sq XOR 8) = NoPiece) \<and>
         (if pt = KING \<and> capture = makePiece ROOK stm then
            (let kingToSq = castlingKingSq from_sq to_sq; rookToSq = castlingRookSq from_sq to_sq
             in (kingToSq = from_sq \<or> kingToSq = to_sq \<or> board b kingToSq = NoPiece) \<and>
                (rookToSq = from_sq \<or> rookToSq = to_sq \<or> board b rookToSq = NoPiece))
          else if pt = PAWN \<and> to_sq = enPassantSquare b then
            capture = NoPiece \<and> board b (to_sq XOR 8) = makePiece PAWN (flipColor stm) \<and>
            square_rank to_sq = (if stm = White then 5 else 2)
          else capture = NoPiece \<or> accColor capture = flipColor stm))"

text \<open>
  A two-square pawn advance: a pawn of the side to move leaves its home rank for the
  square two ranks ahead.
\<close>

definition doublePush :: "Board \<Rightarrow> Move \<Rightarrow> bool" where
  "doublePush b m \<longleftrightarrow>
     move_piece m = PAWN \<and> \<not> move_promoted m \<and>
     (case sideToMove b of
        White \<Rightarrow> square_rank (move_from m) = 1 \<and> move_to m = move_from m + 16
      | Black \<Rightarrow> square_rank (move_from m) = 6 \<and> move_from m = move_to m + 16)"

text \<open>
  An enemy pawn stands beside the square \<open>sq\<close>, on a neighbouring file of the same
  rank: from there it attacks the square a pawn arriving on \<open>sq\<close> has passed over.
\<close>

definition enemyPawnBeside :: "Board \<Rightarrow> Square \<Rightarrow> bool" where
  "enemyPawnBeside b sq \<longleftrightarrow>
     (0 < square_file sq \<and> board b (sq - 1) = makePiece PAWN (flipColor (sideToMove b))) \<or>
     (square_file sq < 7 \<and> board b (sq + 1) = makePiece PAWN (flipColor (sideToMove b)))"

text \<open>
  Where the king ends up: on the castling square of its side for a castling move, on
  the destination of the move otherwise.
\<close>

definition kingDestination :: "Board \<Rightarrow> Move \<Rightarrow> Square" where
  "kingDestination b m =
     (if isCastlingMove b m then castlingKingSq (move_from m) (move_to m) else move_to m)"

text \<open>
  The two squares lie on different halves of the board, left and right of the line
  between the d-file and the e-file.
\<close>

definition crossesMirrorLine :: "Square \<Rightarrow> Square \<Rightarrow> bool" where
  "crossesMirrorLine a c \<longleftrightarrow> (square_file a < 4) \<noteq> (square_file c < 4)"

text \<open>The two squares lie on the same file or on neighbouring files, as in a king's step.\<close>

definition neighbourFiles :: "Square \<Rightarrow> Square \<Rightarrow> bool" where
  "neighbourFiles a c \<longleftrightarrow> square_file a \<le> square_file c + 1 \<and> square_file c \<le> square_file a + 1"

text \<open>
  The evaluator call \<open>makeMove\<close> makes for a piece captured on the destination square,
  if there is one and the move is not castling.
\<close>

definition capturedRemoval :: "Board \<Rightarrow> Move \<Rightarrow> NnueCall list" where
  "capturedRemoval b m =
     (let capture = board b (move_to m)
      in if capture \<noteq> NoPiece \<and> \<not> isCastlingMove b m
         then [AccumulatorRemove (type_of_piece capture) (accColor capture) (move_to m)
                 (lsb (pieces b KING White)) (lsb (pieces b KING Black))]
         else [])"

text \<open>
  The positions a search visits from a start position \<open>b0\<close>: it makes moves that keep
  the contract and null moves, and takes them back in the reverse order. The second
  component lists the moves made and not yet unmade, the latest first (\<open>None\<close> for a
  null move).
\<close>

inductive visits :: "Tables \<Rightarrow> Board \<Rightarrow> Board \<times> Move option list \<Rightarrow> bool"
  for T :: Tables and b0 :: Board where
  start: "visits T b0 (b0, [])"
| make: "visits T b0 (b, pending) \<Longrightarrow> moveContract b m \<Longrightarrow>
         makeMove T u m (b, nnue) = Some (b', nnue') \<Longrightarrow>
         visits T b0 (b', Some m # pending)"
| unmake: "visits T b0 (b, Some m # pending) \<Longrightarrow>
           unmakeMove u m (b, nnue) = Some (b', nnue') \<Longrightarrow>
           visits T b0 (b', pending)"
| makeNull: "visits T b0 (b, pending) \<Longrightarrow> visits T b0 (makeNullMove T b, None # pending)"
| unmakeNull: "visits T b0 (b, None # pending) \<Longrightarrow> unmakeNullMove T b = Some b' \<Longrightarrow>
               visits T b0 (b', pending)"

text \<open>
  How a visited position came about: each pending move was made, within the contract,
  from a position that came about in the same way.
\<close>

fun cameBy :: "Tables \<Rightarrow> Board \<Rightarrow> Move option list \<Rightarrow> Board \<Rightarrow> bool" where
  "cameBy T b0 [] b \<longleftrightarrow> b = b0"
| "cameBy T b0 (Some m # pending) b \<longleftrightarrow>
     (\<exists>bp u nnue nnue'. cameBy T b0 pending bp \<and> moveContract bp m \<and>
        makeMove T u m (bp, nnue) = Some (b, nnue'))"
| "cameBy T b0 (None # pending) b \<longleftrightarrow>
     (\<exists>bp. cameBy T b0 pending bp \<and> b = makeNullMove T bp)"

section \<open>Auxiliary notions\<close>

text \<open>
  Notions used only in the proofs: which fields two boards share, the piece section
  of \<open>makeMove\<close> run without the evaluator, and the first half of \<open>unmakeMove\<close>.
\<close>

definition onlyPieces :: "Board \<Rightarrow> Board \<Rightarrow> bool" where
  "onlyPieces b' b \<longleftrightarrow>
     sideToMove b' = sideToMove b \<and> enPassantSquare b' = enPassantSquare b \<and>
     castlingRights b' = castlingRights b \<and> halfMoveClock b' = halfMoveClock b \<and>
     fullMoveNumber b' = fullMoveNumber b \<and> hashKey b' = hashKey b \<and> pawnKey b' = pawnKey b \<and>
     stateHistory b' = stateHistory b \<and> hashHistory b' = hashHistory b \<and>
     pawnKeyHistory b' = pawnKeyHistory b"

definition coreEq :: "Board \<Rightarrow> Board \<Rightarrow> bool" where
  "coreEq b1 b \<longleftrightarrow>
     piecesBB b1 = piecesBB b \<and> board b1 = board b \<and> sideToMove b1 = sideToMove b \<and>
     fullMoveNumber b1 = fullMoveNumber b \<and> stateHistory b1 = stateHistory b \<and>
     hashHistory b1 = hashHistory b \<and> pawnKeyHistory b1 = pawnKeyHistory b"

definition piecesOnly :: "Tables \<Rightarrow> Move \<Rightarrow> Piece \<Rightarrow> bool \<Rightarrow> bool \<Rightarrow> Board \<Rightarrow> Board option" where
  "piecesOnly T m cap ep ic b = map_option fst (updatePieces T False m cap ep ic (b, []))"

definition rewind :: "Board \<Rightarrow> Board" where
  "rewind b = flipSide (restoreState (last (stateHistory b)) (popHistory b))"

definition coreRest :: "Board \<Rightarrow> Board \<Rightarrow> bool" where
  "coreRest b3 b1 \<longleftrightarrow>
     sideToMove b3 = sideToMove b1 \<and> fullMoveNumber b3 = fullMoveNumber b1 \<and>
     stateHistory b3 = stateHistory b1 \<and> hashHistory b3 = hashHistory b1 \<and>
     pawnKeyHistory b3 = pawnKeyHistory b1"

section \<open>Properties\<close>

subsection \<open>Basic facts\<close>

lemma flipColor_flipColor: "flipColor (flipColor c) = c"
  by (cases c) simp_all

subsection \<open>The evaluator switch does not reach the position\<close>

lemma bind_same_cong:
  "(\<And>y. map_option fst (k y) = map_option fst (k' y)) \<Longrightarrow>
   map_option fst (Option.bind x k) = map_option fst (Option.bind x k')"
  by (cases x) simp_all

lemma bind_fst_cong:
  "map_option fst x = map_option fst x' \<Longrightarrow>
   (\<And>y y'. fst y = fst y' \<Longrightarrow> map_option fst (k y) = map_option fst (k' y')) \<Longrightarrow>
   map_option fst (Option.bind x k) = map_option fst (Option.bind x' k')"
  by (cases x; cases x') auto

lemma piecesCapture_cong:
  "fst bn = fst bn' \<Longrightarrow>
   map_option fst (piecesCapture T u move ep isCastling capture kw kb bn) =
   map_option fst (piecesCapture T u' move ep isCastling capture kw' kb' bn')"
  by (cases bn; cases bn')
    (simp add: piecesCapture_def Let_def removePieceT_def placePieceT_def)

lemma piecesMover_cong:
  "fst bn = fst bn' \<Longrightarrow>
   map_option fst (piecesMover T u move isCastling kw kb bn) =
   map_option fst (piecesMover T u' move isCastling kw' kb' bn')"
  by (cases bn; cases bn')
    (simp add: piecesMover_def Let_def removePieceT_def placePieceT_def movePieceT_def)

lemma updatePieces_cong:
  "fst bn = fst bn' \<Longrightarrow>
   map_option fst (updatePieces T u move capture ep isCastling bn) =
   map_option fst (updatePieces T u' move capture ep isCastling bn')"
  unfolding updatePieces_def Let_def
  by (intro bind_fst_cong piecesCapture_cong piecesMover_cong) simp_all

lemma makeMove_cong:
  "fst bn = fst bn' \<Longrightarrow>
   map_option fst (makeMove T u move bn) = map_option fst (makeMove T u' move bn')"
  unfolding makeMove_def Let_def
  apply (cases "makeMove_entry (fst bn') move")
   apply (simp_all split del: if_split)
  apply (intro bind_same_cong bind_fst_cong updatePieces_cong)
   apply simp_all
  done

lemma unmakeMove_cong:
  "fst bn = fst bn' \<Longrightarrow>
   map_option fst (unmakeMove u move bn) = map_option fst (unmakeMove u' move bn')"
  by (simp add: unmakeMove_def Let_def)

text \<open>
  C10. The instantiations \<^verbatim>\<open>makeMove<true>\<close> and \<^verbatim>\<open>makeMove<false>\<close>, and likewise
  \<^verbatim>\<open>unmakeMove<true>\<close> and \<^verbatim>\<open>unmakeMove<false>\<close>, leave the same \<open>Board\<close> behind on
  every input (and abort on the same inputs): bitboards, mailbox, side to move,
  castling rights, en-passant square, clocks, both keys and the histories agree.
\<close>

theorem makeMove_unmakeMove_nnue_independent:
  "map_option fst (makeMove T True move (b, nnue)) =
     map_option fst (makeMove T False move (b, nnue)) \<and>
   map_option fst (unmakeMove True move (b, nnue)) =
     map_option fst (unmakeMove False move (b, nnue))"
  using makeMove_cong [of "(b, nnue)" "(b, nnue)" T True move False]
    unmakeMove_cong [of "(b, nnue)" "(b, nnue)" True move False]
  by simp

subsection \<open>Null moves\<close>

text \<open>
  C7. For every board \<open>b\<close>, \<^verbatim>\<open>unmakeNullMove\<close> after \<^verbatim>\<open>makeNullMove\<close> returns and gives
  back \<open>b\<close> in every field (keys, en-passant square, rights, clocks, side to move,
  histories). Neither function touches a bitboard or the mailbox, and neither takes
  the evaluator.
\<close>

theorem nullMove_roundtrip:
  "unmakeNullMove T (makeNullMove T b) = Some b \<and>
   piecesBB (makeNullMove T b) = piecesBB b \<and> board (makeNullMove T b) = board b \<and>
   map_option piecesBB (unmakeNullMove T b0) =
     (if stateHistory b0 = [] then None else Some (piecesBB b0)) \<and>
   map_option board (unmakeNullMove T b0) =
     (if stateHistory b0 = [] then None else Some (board b0))"
  by (simp add: unmakeNullMove_def makeNullMove_def Let_def flipSide_def xorHashKey_def
      flipColor_flipColor word_bw_assocs)

subsection \<open>Lemmas for the move engine\<close>

subsection \<open>Pieces\<close>

lemma type_of_makePiece: "type_of_piece (makePiece pt c) = pt"
  by (cases pt; cases c) simp_all

lemma makePiece_eq_NoPiece: "makePiece pt c = NoPiece \<longleftrightarrow> pt = NONETYPE"
  by (cases pt; cases c) simp_all

lemma accColor_makePiece: "pt \<noteq> NONETYPE \<Longrightarrow> accColor (makePiece pt c) = c"
  by (cases pt; cases c) (simp_all add: accColor_def)

lemma makePiece_inject: "pt \<noteq> NONETYPE \<Longrightarrow> makePiece pt c = makePiece pt' c' \<longleftrightarrow> pt = pt' \<and> c = c'"
  by (cases pt; cases c; cases pt'; cases c') simp_all

lemma makePiece_type_accColor: "pc \<noteq> NoPiece \<Longrightarrow> makePiece (type_of_piece pc) (accColor pc) = pc"
  by (cases pc) (simp_all add: accColor_def)

lemma flipColor_neq: "flipColor c \<noteq> c"
  by (cases c) simp_all

subsection \<open>Bits of a bitboard\<close>

lemma bit_sqBit: "bit (sqBit sq) n \<longleftrightarrow> n = sq \<and> sq < 64"
  by (auto simp add: sqBit_def bit_simps)

lemma bit_remove: "bit (x AND NOT (sqBit sq)) n \<longleftrightarrow> bit x n \<and> n \<noteq> sq"
  by (auto simp add: bit_sqBit bit_simps dest: bit_imp_le_length)

lemma bit_place: "bit (x OR sqBit sq) n \<longleftrightarrow> bit x n \<or> (n = sq \<and> sq < 64)"
  by (auto simp add: bit_sqBit bit_simps)

lemma bb_remove_place: "bit x sq \<Longrightarrow> (x AND NOT (sqBit sq)) OR sqBit sq = x"
  by (rule bit_eqI) (auto simp add: bit_remove bit_place dest: bit_imp_le_length)

lemma bb_place_remove: "\<not> bit x sq \<Longrightarrow> (x OR sqBit sq) AND NOT (sqBit sq) = x"
  by (rule bit_eqI) (auto simp add: bit_remove bit_place)

lemma bb_move_undo:
  "f \<noteq> t \<Longrightarrow> bit x f \<Longrightarrow> \<not> bit x t \<Longrightarrow>
   (((x AND NOT (sqBit f)) OR sqBit t) AND NOT (sqBit t)) OR sqBit f = x"
  by (rule bit_eqI) (auto simp add: bit_remove bit_place dest: bit_imp_le_length)

subsection \<open>Fields under the primitives\<close>

lemma board_prims:
  "board (removePiece pc sq b) = (board b)(sq := NoPiece)"
  "board (placePiece pc sq b) = (board b)(sq := pc)"
  "board (movePiece pc f t b) = (board b)(f := NoPiece, t := pc)"
  "board (xorPawnKey k b) = board b"
  by (simp_all add: removePiece_def placePiece_def movePiece_def xorPawnKey_def)

lemma piecesBB_prims:
  "piecesBB (removePiece pc sq b) = (piecesBB b)(pc := piecesBB b pc AND NOT (sqBit sq))"
  "piecesBB (placePiece pc sq b) = (piecesBB b)(pc := piecesBB b pc OR sqBit sq)"
  "piecesBB (movePiece pc f t b) =
     (piecesBB b)(pc := (piecesBB b pc AND NOT (sqBit f)) OR sqBit t)"
  "piecesBB (xorPawnKey k b) = piecesBB b"
  by (simp_all add: removePiece_def placePiece_def movePiece_def xorPawnKey_def)

lemma sideToMove_prims:
  "sideToMove (removePiece pc sq b) = sideToMove b"
  "sideToMove (placePiece pc sq b) = sideToMove b"
  "sideToMove (movePiece pc f t b) = sideToMove b"
  "sideToMove (xorPawnKey k b) = sideToMove b"
  by (simp_all add: removePiece_def placePiece_def movePiece_def xorPawnKey_def)

lemma enPassantSquare_prims:
  "enPassantSquare (removePiece pc sq b) = enPassantSquare b"
  "enPassantSquare (placePiece pc sq b) = enPassantSquare b"
  "enPassantSquare (movePiece pc f t b) = enPassantSquare b"
  by (simp_all add: removePiece_def placePiece_def movePiece_def)

lemma removePieceT_False: "removePieceT False pc sq kw kb bn = (removePiece pc sq (fst bn), snd bn)"
  by (simp add: removePieceT_def)
lemma placePieceT_False: "placePieceT False pc sq kw kb bn = (placePiece pc sq (fst bn), snd bn)"
  by (simp add: placePieceT_def)
lemma movePieceT_False: "movePieceT T False pc f t kw kb bn = (movePiece pc f t (fst bn), snd bn)"
  by (simp add: movePieceT_def)

lemmas piece_prims = removePieceT_False placePieceT_False movePieceT_False
  board_prims sideToMove_prims

lemma consistentD:
  "consistent b \<Longrightarrow> sq < 64 \<Longrightarrow> pc \<noteq> NoPiece \<Longrightarrow> bit (piecesBB b pc) sq \<longleftrightarrow> board b sq = pc"
  by (simp add: consistent_def)

subsection \<open>Consistency under the primitives\<close>

lemma consistent_removePiece:
  assumes "consistent b" "board b sq = pc" "sq < 64"
  shows "consistent (removePiece pc sq b)"
  using assms
  by (auto simp add: consistent_def removePiece_def bit_remove)

lemma consistent_placePiece:
  assumes "consistent b" "board b sq = NoPiece" "sq < 64" "pc \<noteq> NoPiece"
  shows "consistent (placePiece pc sq b)"
  using assms
  by (auto simp add: consistent_def placePiece_def bit_place)

lemma consistent_movePiece:
  assumes "consistent b" "board b f = pc" "board b t = NoPiece" "f < 64" "t < 64" "pc \<noteq> NoPiece"
  shows "consistent (movePiece pc f t b)"
  using assms
  by (auto simp add: consistent_def movePiece_def bit_place bit_remove)

lemma consistent_xorPawnKey: "consistent (xorPawnKey k b) = consistent b"
  by (simp add: consistent_def xorPawnKey_def)

text \<open>Two consistent boards with the same mailbox have the same bitboards.\<close>

lemma consistent_unique:
  assumes "consistent b'" "consistent b" "board b' = board b"
    and "piecesBB b' NoPiece = piecesBB b NoPiece"
  shows "piecesBB b' = piecesBB b"
proof (rule ext)
  fix pc
  show "piecesBB b' pc = piecesBB b pc"
  proof (cases "pc = NoPiece")
    case True
    then show ?thesis using assms(4) by simp
  next
    case False
    show ?thesis
    proof (rule bit_word_eqI)
      fix n assume "n < LENGTH(64)"
      then have n: "n < 64" by simp
      show "bit (piecesBB b' pc) n = bit (piecesBB b pc) n"
        using consistentD [OF assms(1) n False] consistentD [OF assms(2) n False] assms(3)
        by simp
    qed
  qed
qed

lemma onlyPieces_refl: "onlyPieces b b"
  by (simp add: onlyPieces_def)

lemma onlyPieces_prims:
  "onlyPieces b' b \<Longrightarrow> onlyPieces (removePiece pc sq b') b"
  "onlyPieces b' b \<Longrightarrow> onlyPieces (placePiece pc sq b') b"
  "onlyPieces b' b \<Longrightarrow> onlyPieces (movePiece pc f t b') b"
  by (simp_all add: onlyPieces_def removePiece_def placePiece_def movePiece_def)

lemma roundtrip_eqI:
  assumes "onlyPieces b' b" "consistent b'" "consistent b" "board b' = board b"
    "piecesBB b' NoPiece = piecesBB b NoPiece"
  shows "b' = b"
proof -
  have "piecesBB b' = piecesBB b" using assms(2-5) by (rule consistent_unique)
  with assms(1,4) show ?thesis by (intro Board.equality) (simp_all add: onlyPieces_def)
qed

subsection \<open>The hash section leaves the pieces, the side and the histories alone\<close>

lemma coreEq_trans: "coreEq b2 b1 \<Longrightarrow> coreEq b1 b \<Longrightarrow> coreEq b2 b"
  by (simp add: coreEq_def)

lemma coreEq_hashClearEnPassant: "coreEq (hashClearEnPassant T b) b"
  by (simp add: coreEq_def hashClearEnPassant_def Let_def xorHashKey_def)

lemma coreEq_hashCastlingRook: "hashCastlingRook T m ic b = Some b1 \<Longrightarrow> coreEq b1 b"
  by (auto simp add: coreEq_def hashCastlingRook_def Let_def xorHashKey_def split: if_splits)

lemma coreEq_updateByPieceType: "updateByPieceType T m ep b = Some b1 \<Longrightarrow> coreEq b1 b"
  by (auto simp add: coreEq_def updateByPieceType_def Let_def xorHashKey_def assertThat_def
      removeCastlingRightsAll_def removeCastlingRightsRook_def split: if_splits Color.splits)

lemma coreEq_hashCapture: "coreEq (hashCapture T m cap ic b) b"
  by (simp add: coreEq_def hashCapture_def Let_def xorHashKey_def removeCastlingRightsRook_def)

lemma coreEq_hashMover: "coreEq (hashMover T m b) b"
  by (simp add: coreEq_def hashMover_def Let_def xorHashKey_def xorPawnKey_def)

lemma coreEq_hashSideAndCastling: "coreEq (hashSideAndCastling T b) b"
  by (simp add: coreEq_def hashSideAndCastling_def Let_def xorHashKey_def)

lemma coreEq_updateHash:
  assumes "updateHash T m cap ep ic b = Some b1"
  shows "coreEq b1 b"
proof -
  from assms obtain b2 b3 where
    s1: "hashCastlingRook T m ic (hashClearEnPassant T b) = Some b2" and
    s2: "updateByPieceType T m ep b2 = Some b3" and
    s3: "b1 = hashSideAndCastling T (hashMover T m (hashCapture T m cap ic b3))"
    by (auto simp add: updateHash_def split: Option.bind_splits)
  have "coreEq b2 b"
    by (rule coreEq_trans [OF coreEq_hashCastlingRook [OF s1] coreEq_hashClearEnPassant])
  moreover have "coreEq b3 b2" by (rule coreEq_updateByPieceType [OF s2])
  moreover have "coreEq b1 b3"
    unfolding s3
    by (rule coreEq_trans [OF coreEq_hashSideAndCastling coreEq_trans [OF coreEq_hashMover coreEq_hashCapture]])
  ultimately show ?thesis by (blast intro: coreEq_trans)
qed

text \<open>The hash section aborts only on its two assertions.\<close>

lemma updateHash_Some:
  assumes "ic \<longrightarrow> type_of_piece (board b (move_to m)) = ROOK"
    and "move_piece m = PAWN \<and> \<bar>int (move_from m) - int (move_to m)\<bar> = 16 \<longrightarrow>
         board b (move_to m XOR 8) = NoPiece"
  shows "\<exists>b1. updateHash T m cap ep ic b = Some b1"
proof -
  have "\<exists>b2. hashCastlingRook T m ic (hashClearEnPassant T b) = Some b2 \<and> board b2 = board b"
    using assms(1) coreEq_hashClearEnPassant [of T b]
    by (auto simp add: hashCastlingRook_def Let_def coreEq_def xorHashKey_def)
  then obtain b2 where s1: "hashCastlingRook T m ic (hashClearEnPassant T b) = Some b2"
    and b2: "board b2 = board b" by blast
  have "\<exists>b3. updateByPieceType T m ep b2 = Some b3"
    using assms(2) b2
    by (auto simp add: updateByPieceType_def Let_def assertThat_def xorHashKey_def)
  then show ?thesis
    using s1 by (auto simp add: updateHash_def)
qed

subsection \<open>The piece section without the evaluator\<close>

lemma updatePieces_piecesOnly:
  "map_option fst (updatePieces T u m cap ep ic (b, n)) = piecesOnly T m cap ep ic b"
  unfolding piecesOnly_def by (rule updatePieces_cong) simp

lemma piecesOnly_SomeD:
  assumes "piecesOnly T m cap ep ic b = Some b3"
  shows "\<exists>n3. updatePieces T u m cap ep ic (b, n) = Some (b3, n3)"
proof -
  have "map_option fst (updatePieces T u m cap ep ic (b, n)) = Some b3"
    using assms by (simp add: updatePieces_piecesOnly)
  then show ?thesis by (cases "updatePieces T u m cap ep ic (b, n)") auto
qed

lemma piecesOnly_castling:
  assumes "\<not> move_promoted m"
  shows "piecesOnly T m cap ep True b =
    Some (placePiece (castlingRook (sideToMove b)) (castlingRookSq (move_from m) (move_to m))
           (placePiece (makePiece (move_piece m) (sideToMove b)) (castlingKingSq (move_from m) (move_to m))
             (removePiece (castlingRook (sideToMove b)) (move_to m)
               (removePiece (makePiece (move_piece m) (sideToMove b)) (move_from m) b))))"
  using assms
  by (auto simp add: piecesOnly_def updatePieces_def piecesCapture_def piecesMover_def Let_def
      piece_prims)

lemma piecesOnly_enPassant:
  assumes "\<not> move_promoted m" "move_piece m = PAWN" "board b (move_to m XOR 8) \<noteq> NoPiece"
    "board b (move_to m) = NoPiece"
  shows "piecesOnly T m cap True False b =
    Some (movePiece (makePiece PAWN (sideToMove b)) (move_from m) (move_to m)
           (removePiece (makePiece PAWN (flipColor (sideToMove b))) (move_to m XOR 8) b))"
  using assms
  by (auto simp add: piecesOnly_def updatePieces_def piecesCapture_def piecesMover_def Let_def
      piece_prims)

lemma piecesOnly_quiet:
  assumes "\<not> move_promoted m" "\<not> (move_piece m = PAWN \<and> ep)" "board b (move_to m) = NoPiece"
  shows "piecesOnly T m NoPiece ep False b =
    Some (movePiece (makePiece (move_piece m) (sideToMove b)) (move_from m) (move_to m) b)"
  using assms
  by (auto simp add: piecesOnly_def updatePieces_def piecesCapture_def piecesMover_def Let_def
      piece_prims)

lemma piecesOnly_capture:
  assumes "\<not> move_promoted m" "\<not> (move_piece m = PAWN \<and> ep)" "board b (move_to m) = cap" "cap \<noteq> NoPiece"
  shows "piecesOnly T m cap ep False b =
    Some (movePiece (makePiece (move_piece m) (sideToMove b)) (move_from m) (move_to m)
           (removePiece cap (move_to m)
             (if cap = WhitePawn \<or> cap = BlackPawn
              then xorPawnKey (updateKeyPiece T cap (move_to m)) b else b)))"
  using assms
  by (auto simp add: piecesOnly_def updatePieces_def piecesCapture_def piecesMover_def Let_def
      piece_prims)

lemma piecesOnly_promotion_quiet:
  assumes "move_promoted m" "\<not> (move_piece m = PAWN \<and> ep)" "board b (move_to m) = NoPiece"
  shows "piecesOnly T m NoPiece ep False b =
    Some (placePiece (makePiece (move_piece m) (sideToMove b)) (move_to m)
           (removePiece (makePiece PAWN (sideToMove b)) (move_from m) b))"
  using assms
  by (auto simp add: piecesOnly_def updatePieces_def piecesCapture_def piecesMover_def Let_def
      piece_prims)

lemma piecesOnly_promotion_capture:
  assumes "move_promoted m" "\<not> (move_piece m = PAWN \<and> ep)" "board b (move_to m) = cap" "cap \<noteq> NoPiece"
  shows "piecesOnly T m cap ep False b =
    Some (placePiece (makePiece (move_piece m) (sideToMove b)) (move_to m)
           (removePiece (makePiece PAWN (sideToMove b)) (move_from m)
             (removePiece cap (move_to m)
               (if cap = WhitePawn \<or> cap = BlackPawn
                then xorPawnKey (updateKeyPiece T cap (move_to m)) b else b))))"
  using assms
  by (auto simp add: piecesOnly_def updatePieces_def piecesCapture_def piecesMover_def Let_def
      piece_prims)

subsection \<open>Gluing the sections\<close>

lemma isCastlingMove_prelude:
  "isCastlingMove (bumpCounters (storeHistory cap b)) m = isCastlingMove b m"
  by (simp add: isCastlingMove_def colorOf_def bumpCounters_def storeHistory_def)

lemma enPassantSquare_prelude:
  "enPassantSquare (bumpCounters (storeHistory cap b)) = enPassantSquare b"
  by (simp add: bumpCounters_def storeHistory_def)

lemma makeMove_SomeI:
  assumes entry: "makeMove_entry b m"
    and hash: "updateHash T m (board b (move_to m)) (move_to m = enPassantSquare b) (isCastlingMove b m)
                 (bumpCounters (storeHistory (board b (move_to m)) b)) = Some b1"
    and pieces: "piecesOnly T m (board b (move_to m)) (move_to m = enPassantSquare b) (isCastlingMove b m) b1 = Some b3"
  shows "\<exists>n'. makeMove T u m (b, n) = Some (flipSide b3, n')"
proof -
  obtain n3 where "updatePieces T u m (board b (move_to m)) (move_to m = enPassantSquare b)
      (isCastlingMove b m) (b1, if u then n @ [Push] else n) = Some (b3, n3)"
    using piecesOnly_SomeD [OF pieces] by blast
  then show ?thesis
    using entry hash
    by (simp add: makeMove_def Let_def isCastlingMove_prelude enPassantSquare_prelude)
qed

lemma makeMove_SomeD:
  assumes "makeMove T u m (b, n) = Some (b', n')"
  shows "\<exists>b1 b3. makeMove_entry b m \<and>
     updateHash T m (board b (move_to m)) (move_to m = enPassantSquare b) (isCastlingMove b m)
        (bumpCounters (storeHistory (board b (move_to m)) b)) = Some b1 \<and>
     piecesOnly T m (board b (move_to m)) (move_to m = enPassantSquare b) (isCastlingMove b m) b1 = Some b3 \<and>
     b' = flipSide b3"
proof -
  from assms have entry: "makeMove_entry b m"
    by (auto simp add: makeMove_def Let_def split: if_splits)
  from assms entry obtain b1 bn3 where
    h: "updateHash T m (board b (move_to m)) (move_to m = enPassantSquare b) (isCastlingMove b m)
        (bumpCounters (storeHistory (board b (move_to m)) b)) = Some b1" and
    p: "updatePieces T u m (board b (move_to m)) (move_to m = enPassantSquare b)
      (isCastlingMove b m) (b1, if u then n @ [Push] else n) = Some bn3" and
    r: "b' = flipSide (fst bn3)"
    by (auto simp add: makeMove_def Let_def isCastlingMove_prelude enPassantSquare_prelude
        split: Option.bind_splits)
  have "piecesOnly T m (board b (move_to m)) (move_to m = enPassantSquare b) (isCastlingMove b m) b1
      = Some (fst bn3)"
    using p updatePieces_piecesOnly [of T u m "board b (move_to m)" "move_to m = enPassantSquare b"
        "isCastlingMove b m" b1 "if u then n @ [Push] else n"]
    by simp
  with entry h r show ?thesis by blast
qed

lemma unmakeMove_rewind:
  assumes "stateHistory b \<noteq> []" "hashHistory b \<noteq> []" "pawnKeyHistory b \<noteq> []"
  shows "unmakeMove u m (b, n) =
    Some (unmakePieces m (capturedPiece (last (stateHistory b))) (rewind b),
          if u then n @ [Pull] else n)"
  using assms by (simp add: unmakeMove_def rewind_def Let_def)

lemma coreRest_refl: "coreRest b b"
  by (simp add: coreRest_def)

lemma coreRest_prims:
  "coreRest b' b \<Longrightarrow> coreRest (removePiece pc sq b') b"
  "coreRest b' b \<Longrightarrow> coreRest (placePiece pc sq b') b"
  "coreRest b' b \<Longrightarrow> coreRest (movePiece pc f t b') b"
  "coreRest (xorPawnKey k b) b"
  by (simp_all add: coreRest_def removePiece_def placePiece_def movePiece_def xorPawnKey_def)

text \<open>
  After the prelude, the hash section and a piece section that did to the piece
  arrays what \<open>x\<close> shows, \<open>unmakeMove\<close> first arrives at \<open>x\<close>.
\<close>

lemma rewind_after_make:
  assumes "coreEq b1 (bumpCounters (storeHistory cap b))" "coreRest b3 b1"
    "piecesBB b3 = piecesBB x" "board b3 = board x" "onlyPieces x b"
  shows "rewind (flipSide b3) = x"
    and "capturedPiece (last (stateHistory (flipSide b3))) = cap"
    and "stateHistory (flipSide b3) \<noteq> []" "hashHistory (flipSide b3) \<noteq> []"
      "pawnKeyHistory (flipSide b3) \<noteq> []"
proof -
  show "rewind (flipSide b3) = x"
    using assms
    by (intro Board.equality)
      (simp_all add: rewind_def coreEq_def coreRest_def onlyPieces_def flipSide_def
        restoreState_def popHistory_def bumpCounters_def storeHistory_def flipColor_flipColor)
  show "capturedPiece (last (stateHistory (flipSide b3))) = cap"
    "stateHistory (flipSide b3) \<noteq> []" "hashHistory (flipSide b3) \<noteq> []"
    "pawnKeyHistory (flipSide b3) \<noteq> []"
    using assms(1,2)
    by (simp_all add: coreEq_def coreRest_def flipSide_def bumpCounters_def storeHistory_def)
qed

lemma consistent_cong:
  "piecesBB b' = piecesBB b \<Longrightarrow> board b' = board b \<Longrightarrow> consistent b' = consistent b"
  by (simp add: consistent_def)

lemma roundtrip_via:
  assumes entry: "makeMove_entry b m"
    and dbl: "move_piece m = PAWN \<and> \<bar>int (move_from m) - int (move_to m)\<bar> = 16 \<longrightarrow>
         board b (move_to m XOR 8) = NoPiece"
    and pieces: "\<And>b1. coreEq b1 (bumpCounters (storeHistory (board b (move_to m)) b)) \<Longrightarrow>
        \<exists>b3. piecesOnly T m (board b (move_to m)) (move_to m = enPassantSquare b)
               (isCastlingMove b m) b1 = Some b3 \<and>
             coreRest b3 b1 \<and> piecesBB b3 = piecesBB x \<and> board b3 = board x"
    and x: "onlyPieces x b" "consistent x"
    and undo: "unmakePieces m (board b (move_to m)) x = b"
  shows "\<exists>b' n'. makeMove T u m (b, n) = Some (b', n') \<and>
           (\<exists>n''. unmakeMove u' m (b', n') = Some (b, n'')) \<and> consistent b'"
proof -
  let ?cap = "board b (move_to m)"
  let ?b0 = "bumpCounters (storeHistory ?cap b)"
  have "isCastlingMove b m \<longrightarrow> type_of_piece (board ?b0 (move_to m)) = ROOK"
    by (simp add: isCastlingMove_def bumpCounters_def storeHistory_def)
  moreover have "move_piece m = PAWN \<and> \<bar>int (move_from m) - int (move_to m)\<bar> = 16 \<longrightarrow>
         board ?b0 (move_to m XOR 8) = NoPiece"
    using dbl by (simp add: bumpCounters_def storeHistory_def)
  ultimately obtain b1 where
    h: "updateHash T m ?cap (move_to m = enPassantSquare b) (isCastlingMove b m) ?b0 = Some b1"
    using updateHash_Some by blast
  have c1: "coreEq b1 ?b0" by (rule coreEq_updateHash [OF h])
  from pieces [OF c1] obtain b3 where
    p: "piecesOnly T m ?cap (move_to m = enPassantSquare b) (isCastlingMove b m) b1 = Some b3"
    and r: "coreRest b3 b1" and pb: "piecesBB b3 = piecesBB x" and bd: "board b3 = board x"
    by blast
  obtain n' where mk: "makeMove T u m (b, n) = Some (flipSide b3, n')"
    using makeMove_SomeI [OF entry h p] by blast
  note rw = rewind_after_make [OF c1 r pb bd x(1)]
  have "unmakeMove u' m (flipSide b3, n') = Some (b, if u' then n' @ [Pull] else n')"
    using unmakeMove_rewind [OF rw(3,4,5)] rw(1,2) undo by simp
  moreover have "consistent (flipSide b3)"
    using x(2) pb bd consistent_cong [of "flipSide b3" x] by (simp add: flipSide_def)
  ultimately show ?thesis using mk by blast
qed

lemma makeMove_entry_contract: "moveContract b m \<Longrightarrow> makeMove_entry b m"
  by (auto simp add: moveContract_def makeMove_entry_def Let_def MAX_SQ_def makePiece_eq_NoPiece
      split: if_splits)

lemma not_castling_pair_NoPiece:
  "\<not> ((p = WhiteKing \<and> NoPiece = WhiteRook) \<or> (p = BlackKing \<and> NoPiece = BlackRook))"
  by simp

lemma colorOf_accColor: "board b sq \<noteq> NoPiece \<Longrightarrow> colorOf b sq = Some (accColor (board b sq))"
  by (cases "board b sq") (simp_all add: colorOf_def accColor_def)

lemma roundtrip_quiet:
  assumes con: "consistent b" and f: "move_from m < 64" and t: "move_to m < 64"
    and ft: "move_from m \<noteq> move_to m"
    and pt: "move_piece m \<noteq> NONETYPE" and np: "\<not> move_promoted m"
    and fromp: "board b (move_from m) = makePiece (move_piece m) (sideToMove b)"
    and empty: "board b (move_to m) = NoPiece"
    and notep: "\<not> (move_piece m = PAWN \<and> move_to m = enPassantSquare b)"
    and dbl: "move_piece m = PAWN \<and> \<bar>int (move_from m) - int (move_to m)\<bar> = 16 \<longrightarrow>
         board b (move_to m XOR 8) = NoPiece"
  shows "\<exists>b' n'. makeMove T u m (b, n) = Some (b', n') \<and>
           (\<exists>n''. unmakeMove u' m (b', n') = Some (b, n'')) \<and> consistent b'"
proof (rule roundtrip_via [where x = "movePiece (makePiece (move_piece m) (sideToMove b)) (move_from m) (move_to m) b"])
  let ?p = "makePiece (move_piece m) (sideToMove b)"
  let ?x = "movePiece ?p (move_from m) (move_to m) b"
  have p: "?p \<noteq> NoPiece" using pt by (simp add: makePiece_eq_NoPiece)
  have ic: "\<not> isCastlingMove b m" using empty by (simp add: isCastlingMove_def)
  show "makeMove_entry b m"
    using f t pt np empty by (simp add: makeMove_entry_def Let_def MAX_SQ_def makePiece_eq_NoPiece)
  show "move_piece m = PAWN \<and> \<bar>int (move_from m) - int (move_to m)\<bar> = 16 \<longrightarrow>
         board b (move_to m XOR 8) = NoPiece" by (rule dbl)
  show "onlyPieces ?x b" by (intro onlyPieces_prims onlyPieces_refl)
  show cx: "consistent ?x" using fromp empty f t p by (intro consistent_movePiece [OF con])
  show "unmakePieces m (board b (move_to m)) ?x = b"
  proof -
    have step: "unmakePieces m NoPiece ?x = movePiece ?p (move_to m) (move_from m) ?x"
      using np notep
      by (auto simp add: unmakePieces_def Let_def unmakeCapture_def sideToMove_prims enPassantSquare_prims)
    have "movePiece ?p (move_to m) (move_from m) ?x = b"
    proof (rule roundtrip_eqI)
      show "onlyPieces (movePiece ?p (move_to m) (move_from m) ?x) b"
        by (intro onlyPieces_prims onlyPieces_refl)
      show "consistent (movePiece ?p (move_to m) (move_from m) ?x)"
        using f t p ft by (intro consistent_movePiece [OF cx]) (simp_all add: board_prims)
      show "consistent b" by (rule con)
      show "board (movePiece ?p (move_to m) (move_from m) ?x) = board b"
        using fromp empty by (auto simp add: board_prims fun_eq_iff)
      show "piecesBB (movePiece ?p (move_to m) (move_from m) ?x) NoPiece = piecesBB b NoPiece"
        using p by (simp add: piecesBB_prims)
    qed
    with step empty show ?thesis by simp
  qed
  fix b1 assume c1: "coreEq b1 (bumpCounters (storeHistory (board b (move_to m)) b))"
  then have eqs: "piecesBB b1 = piecesBB b" "board b1 = board b" "sideToMove b1 = sideToMove b"
    by (simp_all add: coreEq_def bumpCounters_def storeHistory_def)
  have "piecesOnly T m NoPiece (move_to m = enPassantSquare b) False b1 =
      Some (movePiece (makePiece (move_piece m) (sideToMove b1)) (move_from m) (move_to m) b1)"
    using np notep empty eqs by (intro piecesOnly_quiet) auto
  then show "\<exists>b3. piecesOnly T m (board b (move_to m)) (move_to m = enPassantSquare b)
               (isCastlingMove b m) b1 = Some b3 \<and>
             coreRest b3 b1 \<and> piecesBB b3 = piecesBB ?x \<and> board b3 = board ?x"
    using ic empty eqs
    by (simp add: coreRest_prims coreRest_refl piecesBB_prims board_prims)
qed

lemma xor8_rank5:
  assumes "square_rank t = 5"
  shows "t XOR 8 = t - 8" and "squarePlus t (- 8) = t XOR 8" and "t XOR 8 < 64" and "t XOR 8 \<noteq> t"
proof -
  from assms have "t \<in> {40, 41, 42, 43, 44, 45, 46, 47}"
    by (simp add: square_rank_def) arith
  then show "t XOR 8 = t - 8" and "squarePlus t (- 8) = t XOR 8" and "t XOR 8 < 64" and "t XOR 8 \<noteq> t"
    by (auto simp add: squarePlus_def)
qed

lemma xor8_rank2:
  assumes "square_rank t = 2"
  shows "t XOR 8 = t + 8" and "squarePlus t 8 = t XOR 8" and "t XOR 8 < 64" and "t XOR 8 \<noteq> t"
proof -
  from assms have "t \<in> {16, 17, 18, 19, 20, 21, 22, 23}"
    by (simp add: square_rank_def) arith
  then show "t XOR 8 = t + 8" and "squarePlus t 8 = t XOR 8" and "t XOR 8 < 64" and "t XOR 8 \<noteq> t"
    by (auto simp add: squarePlus_def)
qed

lemma makePiece_eq_King:
  "makePiece pt c = WhiteKing \<longleftrightarrow> pt = KING \<and> c = White"
  "makePiece pt c = BlackKing \<longleftrightarrow> pt = KING \<and> c = Black"
  by (cases pt; cases c; simp)+

lemma castling_pair_same_color:
  "(p = WhiteKing \<and> cap = WhiteRook) \<or> (p = BlackKing \<and> cap = BlackRook) \<Longrightarrow>
   accColor p = accColor cap"
  by (auto simp add: accColor_def)

lemma castling_squares:
  assumes "f < 64"
  shows "castlingKingSq f t < 64" "castlingRookSq f t < 64" "castlingKingSq f t \<noteq> castlingRookSq f t"
proof -
  from assms have "f div 8 < 8" by simp
  then have "f div 8 * 8 \<le> 56" by simp
  then show "castlingKingSq f t < 64" "castlingRookSq f t < 64"
    "castlingKingSq f t \<noteq> castlingRookSq f t"
    by (simp_all add: castlingKingSq_def castlingRookSq_def file_rank_square_def square_rank_def
      FILE_C_def FILE_D_def FILE_F_def FILE_G_def)
qed

lemma roundtrip_capture:
  assumes con: "consistent b" and f: "move_from m < 64" and t: "move_to m < 64"
    and ft: "move_from m \<noteq> move_to m"
    and pt: "move_piece m \<noteq> NONETYPE" and np: "\<not> move_promoted m"
    and fromp: "board b (move_from m) = makePiece (move_piece m) (sideToMove b)"
    and cap: "board b (move_to m) \<noteq> NoPiece"
    and capc: "accColor (board b (move_to m)) = flipColor (sideToMove b)"
    and capk: "type_of_piece (board b (move_to m)) \<noteq> KING"
    and notep: "\<not> (move_piece m = PAWN \<and> move_to m = enPassantSquare b)"
    and dbl: "move_piece m = PAWN \<and> \<bar>int (move_from m) - int (move_to m)\<bar> = 16 \<longrightarrow>
         board b (move_to m XOR 8) = NoPiece"
  shows "\<exists>b' n'. makeMove T u m (b, n) = Some (b', n') \<and>
           (\<exists>n''. unmakeMove u' m (b', n') = Some (b, n'')) \<and> consistent b'"
proof (rule roundtrip_via [where x = "movePiece (makePiece (move_piece m) (sideToMove b)) (move_from m) (move_to m)
    (removePiece (board b (move_to m)) (move_to m) b)"])
  let ?p = "makePiece (move_piece m) (sideToMove b)"
  let ?cap = "board b (move_to m)"
  let ?r = "removePiece ?cap (move_to m) b"
  let ?x = "movePiece ?p (move_from m) (move_to m) ?r"
  have p: "?p \<noteq> NoPiece" using pt by (simp add: makePiece_eq_NoPiece)
  have pc: "accColor ?p = sideToMove b" using pt by (simp add: accColor_makePiece)
  have pcap: "?p \<noteq> ?cap" using pc capc flipColor_neq [of "sideToMove b"] by auto
  have ic: "\<not> isCastlingMove b m"
    using cap p fromp capc pc flipColor_neq [of "sideToMove b"]
    by (auto simp add: isCastlingMove_def colorOf_accColor)
  have nopair: "\<not> ((?p = WhiteKing \<and> ?cap = WhiteRook) \<or> (?p = BlackKing \<and> ?cap = BlackRook))"
    using castling_pair_same_color [of ?p ?cap] pc capc flipColor_neq [of "sideToMove b"] by auto
  show "makeMove_entry b m"
    using f t pt np capk by (simp add: makeMove_entry_def Let_def MAX_SQ_def makePiece_eq_NoPiece)
  show "move_piece m = PAWN \<and> \<bar>int (move_from m) - int (move_to m)\<bar> = 16 \<longrightarrow>
         board b (move_to m XOR 8) = NoPiece" by (rule dbl)
  show "onlyPieces ?x b" by (intro onlyPieces_prims onlyPieces_refl)
  have cr: "consistent ?r" using t by (intro consistent_removePiece [OF con]) simp_all
  show cx: "consistent ?x"
    using fromp f t p ft by (intro consistent_movePiece [OF cr]) (simp_all add: board_prims)
  show "unmakePieces m ?cap ?x = b"
  proof -
    let ?y = "movePiece ?p (move_to m) (move_from m) ?x"
    have step: "unmakePieces m ?cap ?x = placePiece ?cap (move_to m) ?y"
      using np notep nopair cap
      by (auto simp add: unmakePieces_def Let_def unmakeCapture_def sideToMove_prims enPassantSquare_prims)
    have cy: "consistent ?y"
      using f t p ft by (intro consistent_movePiece [OF cx]) (simp_all add: board_prims)
    have "placePiece ?cap (move_to m) ?y = b"
    proof (rule roundtrip_eqI)
      show "onlyPieces (placePiece ?cap (move_to m) ?y) b"
        by (intro onlyPieces_prims onlyPieces_refl)
      show "consistent (placePiece ?cap (move_to m) ?y)"
        using t cap ft by (intro consistent_placePiece [OF cy]) (simp_all add: board_prims)
      show "consistent b" by (rule con)
      show "board (placePiece ?cap (move_to m) ?y) = board b"
        using fromp by (auto simp add: board_prims fun_eq_iff)
      show "piecesBB (placePiece ?cap (move_to m) ?y) NoPiece = piecesBB b NoPiece"
        using p cap by (simp add: piecesBB_prims)
    qed
    with step show ?thesis by simp
  qed
  fix b1 assume c1: "coreEq b1 (bumpCounters (storeHistory (board b (move_to m)) b))"
  then have eqs: "piecesBB b1 = piecesBB b" "board b1 = board b" "sideToMove b1 = sideToMove b"
    by (simp_all add: coreEq_def bumpCounters_def storeHistory_def)
  have "piecesOnly T m ?cap (move_to m = enPassantSquare b) False b1 =
      Some (movePiece (makePiece (move_piece m) (sideToMove b1)) (move_from m) (move_to m)
           (removePiece ?cap (move_to m)
             (if ?cap = WhitePawn \<or> ?cap = BlackPawn
              then xorPawnKey (updateKeyPiece T ?cap (move_to m)) b1 else b1)))"
    using np notep cap eqs by (intro piecesOnly_capture) auto
  then show "\<exists>b3. piecesOnly T m (board b (move_to m)) (move_to m = enPassantSquare b)
               (isCastlingMove b m) b1 = Some b3 \<and>
             coreRest b3 b1 \<and> piecesBB b3 = piecesBB ?x \<and> board b3 = board ?x"
    using ic eqs
    by (simp add: coreRest_prims coreRest_refl piecesBB_prims board_prims)
qed

lemma roundtrip_enPassant:
  assumes con: "consistent b" and f: "move_from m < 64" and t: "move_to m < 64"
    and pt: "move_piece m = PAWN" and np: "\<not> move_promoted m"
    and fromp: "board b (move_from m) = makePiece PAWN (sideToMove b)"
    and ep: "move_to m = enPassantSquare b"
    and empty: "board b (move_to m) = NoPiece"
    and victim: "board b (move_to m XOR 8) = makePiece PAWN (flipColor (sideToMove b))"
    and rank: "square_rank (move_to m) = (if sideToMove b = White then 5 else 2)"
    and dbl: "move_piece m = PAWN \<and> \<bar>int (move_from m) - int (move_to m)\<bar> = 16 \<longrightarrow>
         board b (move_to m XOR 8) = NoPiece"
  shows "\<exists>b' n'. makeMove T u m (b, n) = Some (b', n') \<and>
           (\<exists>n''. unmakeMove u' m (b', n') = Some (b, n'')) \<and> consistent b'"
proof (rule roundtrip_via [where x = "movePiece (makePiece PAWN (sideToMove b)) (move_from m) (move_to m)
    (removePiece (makePiece PAWN (flipColor (sideToMove b))) (move_to m XOR 8) b)"])
  let ?p = "makePiece PAWN (sideToMove b)"
  let ?v = "makePiece PAWN (flipColor (sideToMove b))"
  let ?s = "move_to m XOR 8"
  let ?r = "removePiece ?v ?s b"
  let ?x = "movePiece ?p (move_from m) (move_to m) ?r"
  have p: "?p \<noteq> NoPiece" and v: "?v \<noteq> NoPiece" by (simp_all add: makePiece_eq_NoPiece)
  have pv: "?p \<noteq> ?v" using flipColor_neq [of "sideToMove b"] by (simp add: makePiece_inject)
  have s: "?s < 64" "?s \<noteq> move_to m"
    and sp: "squarePlus (move_to m) (if sideToMove b = White then - 8 else 8) = ?s"
    using rank xor8_rank5 [of "move_to m"] xor8_rank2 [of "move_to m"]
    by (auto split: if_splits)
  have sf: "?s \<noteq> move_from m" using fromp victim pv by auto
  have ft: "move_from m \<noteq> move_to m" using fromp empty p by auto
  have ic: "\<not> isCastlingMove b m" using pt by (simp add: isCastlingMove_def)
  show "makeMove_entry b m"
    using f t pt np empty by (simp add: makeMove_entry_def Let_def MAX_SQ_def makePiece_eq_NoPiece)
  show "move_piece m = PAWN \<and> \<bar>int (move_from m) - int (move_to m)\<bar> = 16 \<longrightarrow>
         board b (move_to m XOR 8) = NoPiece"
    by (rule dbl)
  show "onlyPieces ?x b" by (intro onlyPieces_prims onlyPieces_refl)
  have cr: "consistent ?r" using s victim by (intro consistent_removePiece [OF con]) simp_all
  show cx: "consistent ?x"
    using fromp f t p ft sf s empty by (intro consistent_movePiece [OF cr]) (simp_all add: board_prims)
  show "unmakePieces m (board b (move_to m)) ?x = b"
  proof -
    let ?y = "movePiece ?p (move_to m) (move_from m) ?x"
    have step: "unmakePieces m NoPiece ?x = placePiece ?v ?s ?y"
      using np pt ep sp
      by (simp add: unmakePieces_def Let_def unmakeCapture_def sideToMove_prims enPassantSquare_prims)
    have cy: "consistent ?y"
      using f t p ft by (intro consistent_movePiece [OF cx]) (simp_all add: board_prims)
    have "placePiece ?v ?s ?y = b"
    proof (rule roundtrip_eqI)
      show "onlyPieces (placePiece ?v ?s ?y) b"
        by (intro onlyPieces_prims onlyPieces_refl)
      show "consistent (placePiece ?v ?s ?y)"
        using s sf v by (intro consistent_placePiece [OF cy]) (simp_all add: board_prims)
      show "consistent b" by (rule con)
      show "board (placePiece ?v ?s ?y) = board b"
        using fromp empty victim by (auto simp add: board_prims fun_eq_iff)
      show "piecesBB (placePiece ?v ?s ?y) NoPiece = piecesBB b NoPiece"
        using p v by (simp add: piecesBB_prims)
    qed
    with step empty show ?thesis by simp
  qed
  fix b1 assume c1: "coreEq b1 (bumpCounters (storeHistory (board b (move_to m)) b))"
  then have eqs: "piecesBB b1 = piecesBB b" "board b1 = board b" "sideToMove b1 = sideToMove b"
    by (simp_all add: coreEq_def bumpCounters_def storeHistory_def)
  have "piecesOnly T m NoPiece True False b1 =
      Some (movePiece (makePiece PAWN (sideToMove b1)) (move_from m) (move_to m)
           (removePiece (makePiece PAWN (flipColor (sideToMove b1))) (move_to m XOR 8) b1))"
    using np pt empty victim v eqs by (intro piecesOnly_enPassant) auto
  then show "\<exists>b3. piecesOnly T m (board b (move_to m)) (move_to m = enPassantSquare b)
               (isCastlingMove b m) b1 = Some b3 \<and>
             coreRest b3 b1 \<and> piecesBB b3 = piecesBB ?x \<and> board b3 = board ?x"
    using ic eqs empty ep
    by (simp add: coreRest_prims coreRest_refl piecesBB_prims board_prims)
qed

lemma castlingRook_makePiece: "castlingRook c = makePiece ROOK c"
  by (cases c) (simp_all add: castlingRook_def)

lemma castling_pair_iff:
  "(makePiece KING c = WhiteKing \<and> makePiece ROOK c = WhiteRook) \<or>
   (makePiece KING c = BlackKing \<and> makePiece ROOK c = BlackRook)"
  by (cases c) simp_all

lemma roundtrip_castling:
  assumes con: "consistent b" and f: "move_from m < 64" and t: "move_to m < 64"
    and ft: "move_from m \<noteq> move_to m"
    and pt: "move_piece m = KING" and np: "\<not> move_promoted m"
    and fromp: "board b (move_from m) = makePiece KING (sideToMove b)"
    and rook: "board b (move_to m) = makePiece ROOK (sideToMove b)"
    and kfree: "castlingKingSq (move_from m) (move_to m) = move_from m \<or>
                castlingKingSq (move_from m) (move_to m) = move_to m \<or>
                board b (castlingKingSq (move_from m) (move_to m)) = NoPiece"
    and rfree: "castlingRookSq (move_from m) (move_to m) = move_from m \<or>
                castlingRookSq (move_from m) (move_to m) = move_to m \<or>
                board b (castlingRookSq (move_from m) (move_to m)) = NoPiece"
  shows "\<exists>b' n'. makeMove T u m (b, n) = Some (b', n') \<and>
           (\<exists>n''. unmakeMove u' m (b', n') = Some (b, n'')) \<and> consistent b'"
proof (rule roundtrip_via [where x = "placePiece (makePiece ROOK (sideToMove b)) (castlingRookSq (move_from m) (move_to m))
    (placePiece (makePiece KING (sideToMove b)) (castlingKingSq (move_from m) (move_to m))
      (removePiece (makePiece ROOK (sideToMove b)) (move_to m)
        (removePiece (makePiece KING (sideToMove b)) (move_from m) b)))"])
  let ?K = "makePiece KING (sideToMove b)"
  let ?R = "makePiece ROOK (sideToMove b)"
  let ?kt = "castlingKingSq (move_from m) (move_to m)"
  let ?rt = "castlingRookSq (move_from m) (move_to m)"
  let ?xa = "removePiece ?K (move_from m) b"
  let ?xb = "removePiece ?R (move_to m) ?xa"
  let ?xc = "placePiece ?K ?kt ?xb"
  let ?x = "placePiece ?R ?rt ?xc"
  have K: "?K \<noteq> NoPiece" and R: "?R \<noteq> NoPiece" by (simp_all add: makePiece_eq_NoPiece)
  have KR: "?K \<noteq> ?R" by (simp add: makePiece_inject)
  note sq = castling_squares [OF f, of "move_to m"]
  have ic: "isCastlingMove b m"
    using pt fromp rook K R
    by (simp add: isCastlingMove_def colorOf_accColor type_of_makePiece accColor_makePiece)
  show "makeMove_entry b m"
    using f t pt np rook
    by (simp add: makeMove_entry_def Let_def MAX_SQ_def makePiece_eq_NoPiece type_of_makePiece)
  show "move_piece m = PAWN \<and> \<bar>int (move_from m) - int (move_to m)\<bar> = 16 \<longrightarrow>
         board b (move_to m XOR 8) = NoPiece" using pt by simp
  show "onlyPieces ?x b" by (intro onlyPieces_prims onlyPieces_refl)
  have c1: "consistent ?xa" using f fromp by (intro consistent_removePiece [OF con]) simp_all
  have c2: "consistent ?xb"
    using t rook ft by (intro consistent_removePiece [OF c1]) (simp_all add: board_prims)
  have c3: "consistent ?xc"
    using sq K kfree by (intro consistent_placePiece [OF c2]) (auto simp add: board_prims)
  show cx: "consistent ?x"
    using sq R rfree by (intro consistent_placePiece [OF c3]) (auto simp add: board_prims)
  show "unmakePieces m (board b (move_to m)) ?x = b"
  proof -
    let ?ya = "removePiece ?R ?rt ?x"
    let ?yb = "removePiece ?K ?kt ?ya"
    let ?yc = "placePiece ?K (move_from m) ?yb"
    let ?y = "placePiece ?R (move_to m) ?yc"
    have step: "unmakePieces m ?R ?x = ?y"
      using np pt castling_pair_iff [of "sideToMove b"] R
      by (simp add: unmakePieces_def Let_def unmakeCapture_def sideToMove_prims enPassantSquare_prims
          castlingRook_makePiece)
    have d1: "consistent ?ya"
      using sq by (intro consistent_removePiece [OF cx]) (simp_all add: board_prims)
    have d2: "consistent ?yb"
      using sq by (intro consistent_removePiece [OF d1]) (simp_all add: board_prims)
    have d3: "consistent ?yc"
      using f K by (intro consistent_placePiece [OF d2]) (simp_all add: board_prims)
    have "?y = b"
    proof (rule roundtrip_eqI)
      show "onlyPieces ?y b" by (intro onlyPieces_prims onlyPieces_refl)
      show "consistent ?y"
        using t R ft by (intro consistent_placePiece [OF d3]) (simp_all add: board_prims)
      show "consistent b" by (rule con)
      show "board ?y = board b"
        using fromp rook kfree rfree by (auto simp add: board_prims fun_eq_iff)
      show "piecesBB ?y NoPiece = piecesBB b NoPiece"
        using K R by (simp add: piecesBB_prims)
    qed
    with step rook show ?thesis by simp
  qed
  fix b1 assume c1: "coreEq b1 (bumpCounters (storeHistory (board b (move_to m)) b))"
  then have eqs: "piecesBB b1 = piecesBB b" "board b1 = board b" "sideToMove b1 = sideToMove b"
    by (simp_all add: coreEq_def bumpCounters_def storeHistory_def)
  show "\<exists>b3. piecesOnly T m (board b (move_to m)) (move_to m = enPassantSquare b)
               (isCastlingMove b m) b1 = Some b3 \<and>
             coreRest b3 b1 \<and> piecesBB b3 = piecesBB ?x \<and> board b3 = board ?x"
    using ic eqs pt piecesOnly_castling [OF np, of T "board b (move_to m)" "move_to m = enPassantSquare b" b1]
    by (simp add: coreRest_prims coreRest_refl piecesBB_prims board_prims castlingRook_makePiece)
qed

lemma roundtrip_promotion:
  assumes con: "consistent b" and f: "move_from m < 64" and t: "move_to m < 64"
    and ft: "move_from m \<noteq> move_to m"
    and pt: "move_piece m \<noteq> NONETYPE" "move_piece m \<noteq> PAWN" "move_piece m \<noteq> KING"
    and pr: "move_promoted m"
    and fromp: "board b (move_from m) = makePiece PAWN (sideToMove b)"
    and cap: "board b (move_to m) = NoPiece \<or> accColor (board b (move_to m)) = flipColor (sideToMove b)"
    and capk: "type_of_piece (board b (move_to m)) \<noteq> KING"
  shows "\<exists>b' n'. makeMove T u m (b, n) = Some (b', n') \<and>
           (\<exists>n''. unmakeMove u' m (b', n') = Some (b, n'')) \<and> consistent b'"
proof (rule roundtrip_via [where x = "placePiece (makePiece (move_piece m) (sideToMove b)) (move_to m)
    (removePiece (makePiece PAWN (sideToMove b)) (move_from m)
      (if board b (move_to m) \<noteq> NoPiece then removePiece (board b (move_to m)) (move_to m) b else b))"])
  let ?p = "makePiece (move_piece m) (sideToMove b)"
  let ?w = "makePiece PAWN (sideToMove b)"
  let ?cap = "board b (move_to m)"
  let ?xa = "if ?cap \<noteq> NoPiece then removePiece ?cap (move_to m) b else b"
  let ?xb = "removePiece ?w (move_from m) ?xa"
  let ?x = "placePiece ?p (move_to m) ?xb"
  have p: "?p \<noteq> NoPiece" and w: "?w \<noteq> NoPiece" using pt by (simp_all add: makePiece_eq_NoPiece)
  have pw: "?p \<noteq> ?w" using pt by (simp add: makePiece_inject)
  have ic: "\<not> isCastlingMove b m" using pt by (simp add: isCastlingMove_def)
  have nopair: "?p \<noteq> WhiteKing" "?p \<noteq> BlackKing"
    using pt by (simp_all add: makePiece_eq_King)
  show "makeMove_entry b m"
    using f t pt pr capk by (simp add: makeMove_entry_def Let_def MAX_SQ_def makePiece_eq_NoPiece)
  show "move_piece m = PAWN \<and> \<bar>int (move_from m) - int (move_to m)\<bar> = 16 \<longrightarrow>
         board b (move_to m XOR 8) = NoPiece" using pt by simp
  show "onlyPieces ?x b" by (auto intro!: onlyPieces_prims onlyPieces_refl)
  have c0: "consistent ?xa" using con consistent_removePiece [OF con refl t] by simp
  have b0t: "board ?xa (move_to m) = NoPiece" by (simp add: board_prims)
  have b0f: "board ?xa (move_from m) = ?w" using fromp ft by (simp add: board_prims)
  have c1: "consistent ?xb" using f b0f by (intro consistent_removePiece [OF c0])
  show cx: "consistent ?x"
    using t p b0t ft by (intro consistent_placePiece [OF c1]) (simp_all add: board_prims)
  show "unmakePieces m ?cap ?x = b"
  proof -
    let ?ya = "removePiece ?p (move_to m) ?x"
    let ?yb = "placePiece ?w (move_from m) ?ya"
    let ?y = "if ?cap \<noteq> NoPiece then placePiece ?cap (move_to m) ?yb else ?yb"
    have step: "unmakePieces m ?cap ?x = ?y"
      using pr nopair
      by (simp add: unmakePieces_def Let_def sideToMove_prims)
    have d1: "consistent ?ya"
      using t by (intro consistent_removePiece [OF cx]) (simp_all add: board_prims)
    have d2: "consistent ?yb"
      using f w ft by (intro consistent_placePiece [OF d1]) (simp_all add: board_prims)
    have "?y = b"
    proof (rule roundtrip_eqI)
      show "onlyPieces ?y b" by (auto intro!: onlyPieces_prims onlyPieces_refl)
      show "consistent ?y"
      proof (cases "?cap = NoPiece")
        case True
        then show ?thesis using d2 by simp
      next
        case False
        have "consistent (placePiece ?cap (move_to m) ?yb)"
          using t ft False by (intro consistent_placePiece [OF d2]) (simp_all add: board_prims)
        with False show ?thesis by simp
      qed
      show "consistent b" by (rule con)
      show "board ?y = board b"
        using fromp by (auto simp add: board_prims fun_eq_iff)
      show "piecesBB ?y NoPiece = piecesBB b NoPiece"
        using p w by (simp add: piecesBB_prims)
    qed
    with step show ?thesis by simp
  qed
  fix b1 assume c1: "coreEq b1 (bumpCounters (storeHistory (board b (move_to m)) b))"
  then have eqs: "piecesBB b1 = piecesBB b" "board b1 = board b" "sideToMove b1 = sideToMove b"
    by (simp_all add: coreEq_def bumpCounters_def storeHistory_def)
  show "\<exists>b3. piecesOnly T m (board b (move_to m)) (move_to m = enPassantSquare b)
               (isCastlingMove b m) b1 = Some b3 \<and>
             coreRest b3 b1 \<and> piecesBB b3 = piecesBB ?x \<and> board b3 = board ?x"
  proof (cases "?cap = NoPiece")
    case True
    have "piecesOnly T m NoPiece (move_to m = enPassantSquare b) False b1 =
      Some (placePiece (makePiece (move_piece m) (sideToMove b1)) (move_to m)
           (removePiece (makePiece PAWN (sideToMove b1)) (move_from m) b1))"
      using pr pt True eqs by (intro piecesOnly_promotion_quiet) auto
    then show ?thesis
      using ic eqs True
      by (simp add: coreRest_prims coreRest_refl piecesBB_prims board_prims)
  next
    case False
    have "piecesOnly T m ?cap (move_to m = enPassantSquare b) False b1 =
      Some (placePiece (makePiece (move_piece m) (sideToMove b1)) (move_to m)
           (removePiece (makePiece PAWN (sideToMove b1)) (move_from m)
             (removePiece ?cap (move_to m)
               (if ?cap = WhitePawn \<or> ?cap = BlackPawn
                then xorPawnKey (updateKeyPiece T ?cap (move_to m)) b1 else b1))))"
      using pr pt False eqs by (intro piecesOnly_promotion_capture) auto
    then show ?thesis
      using ic eqs False
      by (simp add: coreRest_prims coreRest_refl piecesBB_prims board_prims)
  qed
qed

lemma makeMove_contract:
  assumes con: "consistent b" and mc: "moveContract b m"
  shows "\<exists>b' n'. makeMove T u m (b, n) = Some (b', n') \<and>
           (\<exists>n''. unmakeMove u' m (b', n') = Some (b, n'')) \<and> consistent b'"
proof -
  let ?pt = "move_piece m" and ?stm = "sideToMove b"
  let ?f = "move_from m" and ?t = "move_to m"
  let ?cap = "board b ?t"
  from mc have f: "?f < 64" and t: "?t < 64" and ft: "?f \<noteq> ?t" and pt: "?pt \<noteq> NONETYPE"
    and capk: "type_of_piece ?cap \<noteq> KING"
    and dbl: "?pt = PAWN \<and> \<bar>int ?f - int ?t\<bar> = 16 \<longrightarrow> board b (?t XOR 8) = NoPiece"
    by (simp_all add: moveContract_def Let_def)
  show ?thesis
  proof (cases "move_promoted m")
    case True
    with mc have "?pt \<noteq> PAWN" "?pt \<noteq> KING" "board b ?f = makePiece PAWN ?stm"
      "?cap = NoPiece \<or> accColor ?cap = flipColor ?stm"
      by (simp_all add: moveContract_def Let_def)
    then show ?thesis
      using roundtrip_promotion [OF con f t ft pt _ _ True _ _ capk] by blast
  next
    case np: False
    with mc have fromp: "board b ?f = makePiece ?pt ?stm"
      by (simp add: moveContract_def Let_def)
    show ?thesis
    proof (cases "?pt = KING \<and> ?cap = makePiece ROOK ?stm")
      case True
      with mc have
        "castlingKingSq ?f ?t = ?f \<or> castlingKingSq ?f ?t = ?t \<or> board b (castlingKingSq ?f ?t) = NoPiece"
        "castlingRookSq ?f ?t = ?f \<or> castlingRookSq ?f ?t = ?t \<or> board b (castlingRookSq ?f ?t) = NoPiece"
        by (simp_all add: moveContract_def Let_def)
      then show ?thesis
        using roundtrip_castling [OF con f t ft _ np] True fromp by simp
    next
      case nc: False
      show ?thesis
      proof (cases "?pt = PAWN \<and> ?t = enPassantSquare b")
        case True
        with mc nc have "?cap = NoPiece" "board b (?t XOR 8) = makePiece PAWN (flipColor ?stm)"
          "square_rank ?t = (if ?stm = White then 5 else 2)"
          by (simp_all add: moveContract_def Let_def)
        then show ?thesis
          using roundtrip_enPassant [OF con f t _ np _ _ _ _ _ dbl] True fromp by simp
      next
        case ne: False
        with mc nc have cap: "?cap = NoPiece \<or> accColor ?cap = flipColor ?stm"
          by (auto simp add: moveContract_def Let_def)
        show ?thesis
        proof (cases "?cap = NoPiece")
          case True
          then show ?thesis
            using roundtrip_quiet [OF con f t ft pt np fromp _ ne dbl] by simp
        next
          case False
          with cap have "accColor ?cap = flipColor ?stm" by simp
          then show ?thesis
            using roundtrip_capture [OF con f t ft pt np fromp False _ capk ne dbl] by simp
        qed
      qed
    qed
  qed
qed

subsection \<open>The round trip of a move\<close>

lemma consistent_emptyBoard: "consistent emptyBoard"
  by (simp add: consistent_def emptyBoard_def)

lemma consistent_castlePosition: "consistent castlePosition"
proof -
  have "consistent (placePiece WhiteRook 7 (placePiece WhiteKing 4 (placePiece BlackKing 60 emptyBoard)))"
    by (intro consistent_placePiece consistent_emptyBoard)
      (simp_all add: board_prims emptyBoard_def)
  then show ?thesis
    unfolding castlePosition_def
    by (simp add: consistent_def)
qed

lemma board_castlePosition:
  "board castlePosition = (\<lambda>sq. NoPiece)(60 := BlackKing, 4 := WhiteKing, 7 := WhiteRook)"
  "sideToMove castlePosition = White"
  "enPassantSquare castlePosition = NO_SQ"
  by (simp_all add: castlePosition_def board_prims sideToMove_prims enPassantSquare_prims emptyBoard_def)

lemma moveContract_castlePosition: "moveContract castlePosition whiteCastlesShort"
  by (simp add: moveContract_def whiteCastlesShort_def Let_def board_castlePosition
      castlingKingSq_def castlingRookSq_def file_rank_square_def square_rank_def FILE_F_def FILE_G_def)

text \<open>
  C1. For every board whose mailbox and bitboards agree and every move within the
  contract of \<open>makeMove\<close> (which every legal move meets), \<open>makeMove\<close> returns, and the
  matching \<open>unmakeMove\<close> returns the board it started from: bitboards, mailbox, side
  to move, castling rights, en-passant square, both clocks, \<open>hashKey\<close>, \<open>pawnKey\<close> and the
  three histories are those from before the move.
\<close>

theorem makeMove_unmakeMove_roundtrip:
  assumes "consistent b" and "moveContract b m"
  shows "\<exists>b' nnue'. makeMove T u m (b, nnue) = Some (b', nnue') \<and>
           (\<exists>nnue''. unmakeMove u' m (b', nnue') = Some (b, nnue''))"
  using makeMove_contract [OF assms, of T u nnue u'] by blast

theorem makeMove_unmakeMove_roundtrip_witness:
  "consistent castlePosition \<and> moveContract castlePosition whiteCastlesShort \<and>
   (\<exists>b' nnue'. makeMove demoTables True whiteCastlesShort (castlePosition, []) = Some (b', nnue') \<and>
      (\<exists>nnue''. unmakeMove True whiteCastlesShort (b', nnue') = Some (castlePosition, nnue'')))"
  using makeMove_unmakeMove_roundtrip [OF consistent_castlePosition moveContract_castlePosition,
      of demoTables True "[]" True]
    consistent_castlePosition moveContract_castlePosition
  by blast

subsection \<open>The positions of a search\<close>

lemma unmakeNullMove_makeNullMove: "unmakeNullMove T (makeNullMove T b) = Some b"
  by (simp add: unmakeNullMove_def makeNullMove_def Let_def flipSide_def xorHashKey_def
      flipColor_flipColor word_bw_assocs)

lemma consistent_makeNullMove: "consistent (makeNullMove T b) = consistent b"
  by (rule consistent_cong)
    (simp_all add: makeNullMove_def Let_def flipSide_def xorHashKey_def)

lemma cameBy_consistent:
  assumes "consistent b0"
  shows "cameBy T b0 pending b \<Longrightarrow> consistent b"
proof (induction pending arbitrary: b)
  case Nil
  then show ?case using assms by simp
next
  case (Cons a pending)
  show ?case
  proof (cases a)
    case None
    with Cons.prems obtain bp where "cameBy T b0 pending bp" "b = makeNullMove T bp" by auto
    then show ?thesis using Cons.IH [of bp] by (simp add: consistent_makeNullMove)
  next
    case (Some m)
    with Cons.prems obtain bp u n n' where bp: "cameBy T b0 pending bp" "moveContract bp m"
      and mk: "makeMove T u m (bp, n) = Some (b, n')" by auto
    from makeMove_contract [OF Cons.IH [OF bp(1)] bp(2), of T u n u] mk
    show ?thesis by auto
  qed
qed

lemma visits_cameBy:
  assumes "consistent b0" and "visits T b0 s"
  shows "cameBy T b0 (snd s) (fst s)"
  using assms(2)
proof (induction rule: visits.induct)
  case start
  then show ?case by simp
next
  case (make b pending m u nnue b' nnue')
  then show ?case by auto
next
  case (unmake b m pending u nnue b' nnue')
  then obtain bp v n n' where bp: "cameBy T b0 pending bp" "moveContract bp m"
    and mk: "makeMove T v m (bp, n) = Some (b, n')" by auto
  have cbp: "consistent bp" by (rule cameBy_consistent [OF assms(1) bp(1)])
  from makeMove_contract [OF cbp bp(2), of T v n u] mk
  obtain n'' where "unmakeMove u m (b, n') = Some (bp, n'')" by auto
  moreover have "map_option fst (unmakeMove u m (b, nnue)) = map_option fst (unmakeMove u m (b, n'))"
    by (rule unmakeMove_cong) simp
  ultimately have "b' = bp" using unmake.hyps(2) by simp
  with bp(1) show ?case by simp
next
  case (makeNull b pending)
  then show ?case by auto
next
  case (unmakeNull b pending b')
  then obtain bp where "cameBy T b0 pending bp" "b = makeNullMove T bp" by auto
  with unmakeNull.hyps(2) show ?case by (simp add: unmakeNullMove_makeNullMove)
qed

lemma consistent_unique_piece:
  assumes "consistent b" "sq < 64" "pc \<noteq> NoPiece" "pc' \<noteq> NoPiece"
    "bit (piecesBB b pc) sq" "bit (piecesBB b pc') sq"
  shows "pc = pc'"
  using assms consistentD [of b sq pc] consistentD [of b sq pc'] by simp

lemma consistent_empty_iff:
  assumes "consistent b" "sq < 64"
  shows "board b sq = NoPiece \<longleftrightarrow> (\<forall>pc. pc \<noteq> NoPiece \<longrightarrow> \<not> bit (piecesBB b pc) sq)"
  using assms consistentD [of b sq] by auto

text \<open>
  C9. From a start position whose mailbox and bitboards agree, every position a search
  visits by \<open>makeMove\<close>, \<open>unmakeMove\<close>, \<open>makeNullMove\<close> and \<open>unmakeNullMove\<close> has them
  agree again: on every square the bitboard of a piece has the bit exactly when the
  mailbox holds that piece, the mailbox is empty exactly when no bitboard has the bit,
  and no two bitboards share a bit.
\<close>

theorem visits_consistent:
  assumes "consistent b0" and "visits T b0 (b, pending)"
  shows "(\<forall>sq pc. sq < 64 \<longrightarrow> pc \<noteq> NoPiece \<longrightarrow> (bit (piecesBB b pc) sq \<longleftrightarrow> board b sq = pc)) \<and>
         (\<forall>sq. sq < 64 \<longrightarrow>
            (board b sq = NoPiece \<longleftrightarrow> (\<forall>pc. pc \<noteq> NoPiece \<longrightarrow> \<not> bit (piecesBB b pc) sq))) \<and>
         (\<forall>sq pc pc'. sq < 64 \<longrightarrow> pc \<noteq> NoPiece \<longrightarrow> pc' \<noteq> NoPiece \<longrightarrow>
            bit (piecesBB b pc) sq \<longrightarrow> bit (piecesBB b pc') sq \<longrightarrow> pc = pc')"
proof -
  have c: "consistent b"
    using cameBy_consistent [OF assms(1)] visits_cameBy [OF assms] by simp
  show ?thesis
    using c consistent_unique_piece [OF c] consistent_empty_iff [OF c]
    unfolding consistent_def by blast
qed

theorem visits_consistent_witness:
  "consistent castlePosition \<and>
   (\<exists>b'. visits demoTables castlePosition (b', [Some whiteCastlesShort]) \<and>
      (bit (piecesBB b' WhiteKing) 6 \<longleftrightarrow> board b' 6 = WhiteKing) \<and>
      (board b' 4 = NoPiece \<longleftrightarrow> (\<forall>pc. pc \<noteq> NoPiece \<longrightarrow> \<not> bit (piecesBB b' pc) 4)))"
proof -
  obtain b' n' where mk: "makeMove demoTables False whiteCastlesShort (castlePosition, []) = Some (b', n')"
    using makeMove_contract [OF consistent_castlePosition moveContract_castlePosition,
        of demoTables False "[]" False] by blast
  have v: "visits demoTables castlePosition (b', [Some whiteCastlesShort])"
    by (rule visits.make [OF visits.start moveContract_castlePosition mk])
  from visits_consistent [OF consistent_castlePosition v]
  have "(bit (piecesBB b' WhiteKing) 6 \<longleftrightarrow> board b' 6 = WhiteKing) \<and>
      (board b' 4 = NoPiece \<longleftrightarrow> (\<forall>pc. pc \<noteq> NoPiece \<longrightarrow> \<not> bit (piecesBB b' pc) 4))"
    by simp
  with v consistent_castlePosition show ?thesis by blast
qed

subsection \<open>Castling king side\<close>

lemma and_not_and_self: "(r AND NOT m) AND m = (0::'a::len word)"
  by (rule bit_eqI) (simp add: bit_simps)

lemma and_not_and_disjoint:
  assumes "m AND k = (0::'a::len word)"
  shows "(r AND NOT m) AND k = r AND k"
proof (rule bit_eqI)
  fix n
  from assms have "\<not> (bit m n \<and> bit k n)"
    by (metis bit_and_iff bit_0_eq bot_apply bot_bool_def)
  then show "bit ((r AND NOT m) AND k) n = bit (r AND k) n"
    by (auto simp add: bit_simps dest: bit_imp_le_length)
qed

lemma white_black_disjoint: "(wk OR wq) AND (bk OR bq) = 0"
  by (simp add: wk_def wq_def bk_def bq_def)

lemma castlingRights_prims:
  "castlingRights (removePiece pc sq b) = castlingRights b"
  "castlingRights (placePiece pc sq b) = castlingRights b"
  "castlingRights (movePiece pc f t b) = castlingRights b"
  "castlingRights (flipSide b) = castlingRights b"
  by (simp_all add: removePiece_def placePiece_def movePiece_def flipSide_def)

text \<open>The rights after the hash section of a castling move.\<close>

lemma castlingRights_updateHash_castling:
  assumes "updateHash T m cap ep True b = Some b1" "move_piece m = KING"
  shows "castlingRights b1 = castlingRights (removeCastlingRightsAll (sideToMove b) b)"
  using assms
  by (cases "sideToMove b")
    (auto simp add: updateHash_def hashCastlingRook_def hashClearEnPassant_def updateByPieceType_def
      hashCapture_def hashMover_def hashSideAndCastling_def xorHashKey_def xorPawnKey_def
      removeCastlingRightsAll_def Let_def split: if_splits Option.bind_splits)


text \<open>
  C6. With White to move, the king on e1 and a white rook on h1, the king-side castling
  move (the king taking its rook) is applied by \<open>makeMove\<close>: afterwards White holds
  neither castling right, Black's two rights are what they were, the white king stands
  on g1 and the white rook on f1, in the mailbox and in the bitboards, and e1 and h1
  are empty.
\<close>

theorem white_kingside_castling:
  assumes stm: "sideToMove b = White" and king: "board b 4 = WhiteKing"
    and rook: "board b 7 = WhiteRook"
  shows "\<exists>b' nnue'. makeMove T u whiteCastlesShort (b, nnue) = Some (b', nnue') \<and>
     castlingRights b' AND (wk OR wq) = 0 \<and>
     castlingRights b' AND (bk OR bq) = castlingRights b AND (bk OR bq) \<and>
     board b' 6 = WhiteKing \<and> board b' 5 = WhiteRook \<and>
     board b' 4 = NoPiece \<and> board b' 7 = NoPiece \<and>
     bit (piecesBB b' WhiteKing) 6 \<and> bit (piecesBB b' WhiteRook) 5 \<and>
     \<not> bit (piecesBB b' WhiteKing) 4 \<and> \<not> bit (piecesBB b' WhiteRook) 7"
proof -
  let ?m = whiteCastlesShort
  let ?b0 = "bumpCounters (storeHistory (board b (move_to ?m)) b)"
  have m: "move_from ?m = 4" "move_to ?m = 7" "move_piece ?m = KING" "\<not> move_promoted ?m"
    by (simp_all add: whiteCastlesShort_def)
  have ic: "isCastlingMove b ?m"
    using king rook by (simp add: isCastlingMove_def m colorOf_def)
  have entry: "makeMove_entry b ?m"
    using stm rook by (simp add: makeMove_entry_def m Let_def MAX_SQ_def)
  have "\<exists>b1. updateHash T ?m (board b (move_to ?m)) (move_to ?m = enPassantSquare b) (isCastlingMove b ?m) ?b0 = Some b1"
    using rook by (intro updateHash_Some) (simp_all add: m bumpCounters_def storeHistory_def)
  then obtain b1 where
    h: "updateHash T ?m (board b (move_to ?m)) (move_to ?m = enPassantSquare b) (isCastlingMove b ?m) ?b0 = Some b1"
    by blast
  have c1: "coreEq b1 ?b0" by (rule coreEq_updateHash [OF h])
  then have eqs: "piecesBB b1 = piecesBB b" "board b1 = board b" "sideToMove b1 = White"
    using stm by (simp_all add: coreEq_def bumpCounters_def storeHistory_def)
  have cr: "castlingRights b1 = castlingRights b AND NOT (wk OR wq)"
    using castlingRights_updateHash_castling [of T ?m _ _ ?b0 b1] h ic stm
    by (simp add: m removeCastlingRightsAll_def bumpCounters_def storeHistory_def)
  let ?b3 = "placePiece WhiteRook 5 (placePiece WhiteKing 6 (removePiece WhiteRook 7 (removePiece WhiteKing 4 b1)))"
  have p: "piecesOnly T ?m (board b (move_to ?m)) (move_to ?m = enPassantSquare b) (isCastlingMove b ?m) b1 = Some ?b3"
    using ic piecesOnly_castling [OF m(4), of T _ _ b1] eqs
    by (simp add: m castlingRook_def castlingRookSq_def castlingKingSq_def file_rank_square_def
        square_rank_def FILE_F_def FILE_G_def)
  obtain n' where mk: "makeMove T u ?m (b, nnue) = Some (flipSide ?b3, n')"
    using makeMove_SomeI [OF entry h p] by blast
  have "castlingRights (flipSide ?b3) AND (wk OR wq) = 0"
    by (simp only: castlingRights_prims cr and_not_and_self)
  moreover have "castlingRights (flipSide ?b3) AND (bk OR bq) = castlingRights b AND (bk OR bq)"
    by (simp only: castlingRights_prims cr and_not_and_disjoint [OF white_black_disjoint])
  moreover have "board (flipSide ?b3) 6 = WhiteKing" "board (flipSide ?b3) 5 = WhiteRook"
    "board (flipSide ?b3) 4 = NoPiece" "board (flipSide ?b3) 7 = NoPiece"
    by (simp_all add: flipSide_def board_prims)
  moreover have "bit (piecesBB (flipSide ?b3) WhiteKing) 6" "bit (piecesBB (flipSide ?b3) WhiteRook) 5"
    "\<not> bit (piecesBB (flipSide ?b3) WhiteKing) 4" "\<not> bit (piecesBB (flipSide ?b3) WhiteRook) 7"
    by (simp_all add: flipSide_def piecesBB_prims bit_place bit_remove)
  ultimately show ?thesis using mk by blast
qed

theorem white_kingside_castling_witness:
  "sideToMove castlePosition = White \<and> board castlePosition 4 = WhiteKing \<and>
   board castlePosition 7 = WhiteRook \<and>
   (\<exists>b' nnue'. makeMove demoTables True whiteCastlesShort (castlePosition, []) = Some (b', nnue') \<and>
     castlingRights b' AND (wk OR wq) = 0 \<and>
     castlingRights b' AND (bk OR bq) = castlingRights castlePosition AND (bk OR bq) \<and>
     board b' 6 = WhiteKing \<and> board b' 5 = WhiteRook \<and>
     board b' 4 = NoPiece \<and> board b' 7 = NoPiece \<and>
     bit (piecesBB b' WhiteKing) 6 \<and> bit (piecesBB b' WhiteRook) 5 \<and>
     \<not> bit (piecesBB b' WhiteKing) 4 \<and> \<not> bit (piecesBB b' WhiteRook) 7)"
proof -
  have h: "sideToMove castlePosition = White" "board castlePosition 4 = WhiteKing"
    "board castlePosition 7 = WhiteRook"
    by (simp_all add: board_castlePosition)
  from white_kingside_castling [OF h, of demoTables True "[]"] h show ?thesis by blast
qed

subsection \<open>The en-passant square after a two-square advance\<close>

lemma xor8_rank3:
  assumes "square_rank t = 3"
  shows "t XOR 8 = t - 8" and "square_file (t XOR 8) = square_file t" and "8 \<le> t" "t < 32"
proof -
  from assms have "t \<in> {24, 25, 26, 27, 28, 29, 30, 31}"
    by (simp add: square_rank_def) arith
  then show "t XOR 8 = t - 8" and "square_file (t XOR 8) = square_file t" and "8 \<le> t" "t < 32"
    by (auto simp add: square_file_def)
qed

lemma xor8_rank4:
  assumes "square_rank t = 4"
  shows "t XOR 8 = t + 8" and "square_file (t XOR 8) = square_file t" and "32 \<le> t" "t < 40"
proof -
  from assms have "t \<in> {32, 33, 34, 35, 36, 37, 38, 39}"
    by (simp add: square_rank_def) arith
  then show "t XOR 8 = t + 8" and "square_file (t XOR 8) = square_file t" and "32 \<le> t" "t < 40"
    by (auto simp add: square_file_def)
qed

lemma and_nonzero_iff: "(x AND y \<noteq> 0) \<longleftrightarrow> (\<exists>n<64. bit x n \<and> bit y n)" for x y :: U64
proof
  assume "x AND y \<noteq> 0"
  then obtain n where "bit (x AND y) n" by (auto simp add: bit_eq_iff)
  then have "bit x n \<and> bit y n" and "n < 64"
    using bit_imp_le_length [of "x AND y" n] by (simp_all add: bit_simps)
  then show "\<exists>n<64. bit x n \<and> bit y n" by blast
next
  assume "\<exists>n<64. bit x n \<and> bit y n"
  then obtain n where "bit (x AND y) n" by (auto simp add: bit_simps)
  then show "x AND y \<noteq> 0" by auto
qed

text \<open>The attack mask of the passed-over square meets the enemy pawns beside the pawn.\<close>

lemma epMask_iff:
  assumes con: "consistent b" and dp: "doublePush b m"
  shows "PawnAttacks (move_to m XOR 8) (sideToMove b) AND pieces b PAWN (flipColor (sideToMove b)) \<noteq> 0
         \<longleftrightarrow> enemyPawnBeside b (move_to m)"
proof -
  let ?t = "move_to m"
  let ?v = "makePiece PAWN (flipColor (sideToMove b))"
  have v: "?v \<noteq> NoPiece" by (simp add: makePiece_eq_NoPiece)
  have t: "1 \<le> ?t" "?t + 1 < 64"
    and mask: "\<And>n. bit (PawnAttacks (?t XOR 8) (sideToMove b)) n \<longleftrightarrow>
      (0 < square_file ?t \<and> n = ?t - 1) \<or> (square_file ?t < 7 \<and> n = ?t + 1)"
  proof -
    show "1 \<le> ?t" "?t + 1 < 64"
      using dp by (auto simp add: doublePush_def square_rank_def split: Color.splits)
    fix n
    show "bit (PawnAttacks (?t XOR 8) (sideToMove b)) n \<longleftrightarrow>
      (0 < square_file ?t \<and> n = ?t - 1) \<or> (square_file ?t < 7 \<and> n = ?t + 1)"
    proof (cases "sideToMove b")
      case White
      with dp have r: "square_rank ?t = 3"
        by (auto simp add: doublePush_def square_rank_def)
      note x = xor8_rank3 [OF r]
      show ?thesis
        using x by (auto simp add: PawnAttacks_def White bit_simps bit_sqBit)
    next
      case Black
      with dp have r: "square_rank ?t = 4"
        by (auto simp add: doublePush_def square_rank_def)
      note x = xor8_rank4 [OF r]
      show ?thesis
        using x by (auto simp add: PawnAttacks_def Black bit_simps bit_sqBit)
    qed
  qed
  have "(\<exists>n<64. bit (PawnAttacks (?t XOR 8) (sideToMove b)) n \<and> bit (piecesBB b ?v) n) \<longleftrightarrow>
        (0 < square_file ?t \<and> bit (piecesBB b ?v) (?t - 1)) \<or>
        (square_file ?t < 7 \<and> bit (piecesBB b ?v) (?t + 1))"
  proof -
    have "?t - 1 < 64" "?t + 1 < 64" using t by simp_all
    then show ?thesis unfolding mask by (metis (no_types, lifting))
  qed
  also have "\<dots> \<longleftrightarrow> enemyPawnBeside b ?t"
    using t consistentD [OF con _ v, of "?t - 1"] consistentD [OF con _ v, of "?t + 1"]
    by (simp add: enemyPawnBeside_def)
  finally show ?thesis by (simp add: and_nonzero_iff pieces_def)
qed


lemma enPassantSquare_piecesOnly:
  assumes "piecesOnly T m cap ep ic b1 = Some b3"
  shows "enPassantSquare b3 = enPassantSquare b1"
  using assms
  by (auto simp add: piecesOnly_def updatePieces_def piecesCapture_def piecesMover_def Let_def
      piece_prims enPassantSquare_prims xorPawnKey_def split: if_splits Option.bind_splits)

lemma enPassantSquare_hash_steps:
  "enPassantSquare (hashClearEnPassant T b) = NO_SQ"
  "enPassantSquare (hashCapture T m cap ic b) = enPassantSquare b"
  "enPassantSquare (hashSideAndCastling T b) = enPassantSquare b"
  "enPassantSquare (hashMover T m b) = enPassantSquare b"
  by (simp_all add: hashClearEnPassant_def hashCapture_def hashSideAndCastling_def hashMover_def
      xorHashKey_def xorPawnKey_def removeCastlingRightsRook_def Let_def)

lemma updateByPieceType_doublePush:
  assumes "updateByPieceType T m False b = Some b1" and "move_piece m = PAWN"
    and "\<bar>int (move_from m) - int (move_to m)\<bar> = 16"
  shows "enPassantSquare b1 =
     (if PawnAttacks (move_to m XOR 8) (sideToMove b) AND pieces b PAWN (flipColor (sideToMove b)) \<noteq> 0
      then move_to m XOR 8 else enPassantSquare b)"
  using assms
  by (auto simp add: updateByPieceType_def xorHashKey_def assertThat_def pieces_def Let_def
      split: if_splits)

lemma enPassantSquare_updateHash_doublePush:
  assumes "updateHash T m cap False False b = Some b1" and "move_piece m = PAWN"
    and "\<bar>int (move_from m) - int (move_to m)\<bar> = 16"
  shows "enPassantSquare b1 =
     (if PawnAttacks (move_to m XOR 8) (sideToMove b) AND pieces b PAWN (flipColor (sideToMove b)) \<noteq> 0
      then move_to m XOR 8 else NO_SQ)"
proof -
  from assms(1) obtain b3 where
    s2: "updateByPieceType T m False (hashClearEnPassant T b) = Some b3" and
    s3: "b1 = hashSideAndCastling T (hashMover T m (hashCapture T m cap False b3))"
    by (auto simp add: updateHash_def hashCastlingRook_def split: Option.bind_splits)
  have c: "coreEq (hashClearEnPassant T b) b" by (rule coreEq_hashClearEnPassant)
  show ?thesis
    using updateByPieceType_doublePush [OF s2 assms(2,3)] c
    by (simp add: s3 enPassantSquare_hash_steps coreEq_def pieces_def)
qed

text \<open>
  C4. When \<open>makeMove\<close> applies a two-square pawn advance (within the contract, on a
  board whose mailbox and bitboards agree), the en-passant square afterwards is the
  square passed over if an enemy pawn stands beside the arrival square, where it could
  capture en passant, and is unset otherwise.
\<close>

theorem enPassant_gating:
  assumes con: "consistent b" and mc: "moveContract b m" and dp: "doublePush b m"
  shows "\<exists>b' nnue'. makeMove T u m (b, nnue) = Some (b', nnue') \<and>
     enPassantSquare b' =
       (if enemyPawnBeside b (move_to m) then (move_from m + move_to m) div 2 else NO_SQ)"
proof -
  obtain b' n' where mk: "makeMove T u m (b, nnue) = Some (b', n')"
    using makeMove_contract [OF con mc, of T u nnue u] by blast
  from makeMove_SomeD [OF mk] obtain b1 b3 where
    h: "updateHash T m (board b (move_to m)) (move_to m = enPassantSquare b) (isCastlingMove b m)
        (bumpCounters (storeHistory (board b (move_to m)) b)) = Some b1" and
    p: "piecesOnly T m (board b (move_to m)) (move_to m = enPassantSquare b) (isCastlingMove b m) b1 = Some b3"
    and b': "b' = flipSide b3" by blast
  have pt: "move_piece m = PAWN" using dp by (simp add: doublePush_def)
  have d16: "\<bar>int (move_from m) - int (move_to m)\<bar> = 16"
    using dp by (auto simp add: doublePush_def split: Color.splits)
  have mid: "move_to m XOR 8 = (move_from m + move_to m) div 2"
    and rk: "square_rank (move_to m) = (if sideToMove b = White then 3 else 4)"
  proof -
    show rk: "square_rank (move_to m) = (if sideToMove b = White then 3 else 4)"
      using dp by (auto simp add: doublePush_def square_rank_def split: Color.splits)
    show "move_to m XOR 8 = (move_from m + move_to m) div 2"
      using dp rk xor8_rank3 [of "move_to m"] xor8_rank4 [of "move_to m"]
      by (auto simp add: doublePush_def split: Color.splits)
  qed
  have nep: "move_to m \<noteq> enPassantSquare b"
  proof
    assume "move_to m = enPassantSquare b"
    with mc pt have "square_rank (move_to m) = (if sideToMove b = White then 5 else 2)"
      by (simp add: moveContract_def Let_def)
    with rk show False by (simp split: if_splits)
  qed
  have ic: "\<not> isCastlingMove b m" using pt by (simp add: isCastlingMove_def)
  have "enPassantSquare b1 =
     (if PawnAttacks (move_to m XOR 8) (sideToMove b) AND pieces b PAWN (flipColor (sideToMove b)) \<noteq> 0
      then move_to m XOR 8 else NO_SQ)"
    using enPassantSquare_updateHash_doublePush [OF _ pt d16, of T _ "bumpCounters (storeHistory (board b (move_to m)) b)" b1]
      h nep ic
    by (simp add: pieces_def bumpCounters_def storeHistory_def)
  then have "enPassantSquare b' =
       (if enemyPawnBeside b (move_to m) then (move_from m + move_to m) div 2 else NO_SQ)"
    using epMask_iff [OF con dp] enPassantSquare_piecesOnly [OF p] b' mid
    by (simp add: flipSide_def)
  with mk show ?thesis by blast
qed

lemma consistent_pushPosition: "consistent pushPosition"
  unfolding pushPosition_def
  by (intro consistent_placePiece consistent_emptyBoard)
    (simp_all add: board_prims emptyBoard_def)

lemma fields_pushPosition:
  "board pushPosition =
     (\<lambda>sq. NoPiece)(60 := BlackKing, 4 := WhiteKing, 12 := WhitePawn, 27 := BlackPawn)"
  "sideToMove pushPosition = White"
  "enPassantSquare pushPosition = NO_SQ"
  by (simp_all add: pushPosition_def board_prims sideToMove_prims enPassantSquare_prims
      emptyBoard_def)

lemma moveContract_pushPosition: "moveContract pushPosition pawnE2E4"
  by (simp add: moveContract_def pawnE2E4_def Let_def fields_pushPosition NO_SQ_def)

lemma doublePush_pushPosition: "doublePush pushPosition pawnE2E4"
  by (simp add: doublePush_def pawnE2E4_def fields_pushPosition square_rank_def)

theorem enPassant_gating_witness:
  "consistent pushPosition \<and> moveContract pushPosition pawnE2E4 \<and>
   doublePush pushPosition pawnE2E4 \<and>
   (\<exists>b' nnue'. makeMove demoTables True pawnE2E4 (pushPosition, []) = Some (b', nnue') \<and>
      enPassantSquare b' = 20)"
proof -
  have "enemyPawnBeside pushPosition 28"
    by (simp add: enemyPawnBeside_def fields_pushPosition square_file_def)
  then show ?thesis
    using enPassant_gating [OF consistent_pushPosition moveContract_pushPosition
        doublePush_pushPosition, of demoTables True "[]"]
      consistent_pushPosition moveContract_pushPosition doublePush_pushPosition
    by (simp add: pawnE2E4_def)
qed

subsection \<open>The pawn key on a promotion\<close>

lemma pawnKey_hash_steps:
  "pawnKey (hashClearEnPassant T b) = pawnKey b"
  "pawnKey (hashCapture T m cap ic b) = pawnKey b"
  "pawnKey (hashSideAndCastling T b) = pawnKey b"
  "move_piece m \<noteq> PAWN \<Longrightarrow> pawnKey (hashMover T m b) = pawnKey b"
  by (simp_all add: hashClearEnPassant_def hashCapture_def hashSideAndCastling_def hashMover_def
      xorHashKey_def removeCastlingRightsRook_def Let_def)

lemma pawnKey_hashCastlingRook:
  "hashCastlingRook T m ic b = Some b1 \<Longrightarrow> pawnKey b1 = pawnKey b"
  by (auto simp add: hashCastlingRook_def xorHashKey_def Let_def split: if_splits)

lemma pawnKey_updateByPieceType:
  "updateByPieceType T m ep b = Some b1 \<Longrightarrow> pawnKey b1 = pawnKey b"
  by (auto simp add: updateByPieceType_def xorHashKey_def assertThat_def Let_def
      removeCastlingRightsAll_def removeCastlingRightsRook_def split: if_splits Color.splits)

lemma pawnKey_updateHash_not_pawn:
  assumes "updateHash T m cap ep ic b = Some b1" and "move_piece m \<noteq> PAWN"
  shows "pawnKey b1 = pawnKey b"
proof -
  from assms(1) obtain b2 b3 where
    s1: "hashCastlingRook T m ic (hashClearEnPassant T b) = Some b2" and
    s2: "updateByPieceType T m ep b2 = Some b3" and
    s3: "b1 = hashSideAndCastling T (hashMover T m (hashCapture T m cap ic b3))"
    by (auto simp add: updateHash_def split: Option.bind_splits)
  show ?thesis
    using pawnKey_hashCastlingRook [OF s1] pawnKey_updateByPieceType [OF s2] assms(2)
    by (simp add: s3 pawnKey_hash_steps)
qed

lemma pawnKey_prims:
  "pawnKey (removePiece pc sq b) = pawnKey b"
  "pawnKey (placePiece pc sq b) = pawnKey b"
  "pawnKey (movePiece pc f t b) = pawnKey b"
  "pawnKey (flipSide b) = pawnKey b"
  by (simp_all add: removePiece_def placePiece_def movePiece_def flipSide_def)

lemma pawnKey_piecesOnly_promotion:
  assumes "piecesOnly T m cap ep False b1 = Some b3" and "move_piece m \<noteq> PAWN"
  shows "pawnKey b3 =
     (if cap = WhitePawn \<or> cap = BlackPawn
      then pawnKey b1 XOR updateKeyPiece T cap (move_to m) else pawnKey b1)"
  using assms
  by (auto simp add: piecesOnly_def updatePieces_def piecesCapture_def piecesMover_def Let_def
      piece_prims pawnKey_prims xorPawnKey_def split: if_splits Option.bind_splits)

text \<open>
  C3. What \<open>makeMove\<close> does to \<open>pawnKey\<close> on a promotion: nothing for the promoting pawn.
  The promotion branch of the hash section updates \<open>pawnKey\<close> only under
  \<^verbatim>\<open>pt == PAWN\<close>, and \<open>pt\<close> is the promoted-to type there. After the move \<open>pawnKey\<close> is
  the old key, changed only by a pawn captured on the destination square; the pawn's
  contribution at the origin is not XORed out.
\<close>

theorem promotion_pawnKey:
  assumes mk: "makeMove T u m (b, nnue) = Some (b', nnue')" and pr: "move_promoted m"
  shows "pawnKey b' =
     (if board b (move_to m) = WhitePawn \<or> board b (move_to m) = BlackPawn
      then pawnKey b XOR updateKeyPiece T (board b (move_to m)) (move_to m) else pawnKey b)"
proof -
  from makeMove_SomeD [OF mk] obtain b1 b3 where
    e: "makeMove_entry b m" and
    h: "updateHash T m (board b (move_to m)) (move_to m = enPassantSquare b) (isCastlingMove b m)
        (bumpCounters (storeHistory (board b (move_to m)) b)) = Some b1" and
    p: "piecesOnly T m (board b (move_to m)) (move_to m = enPassantSquare b) (isCastlingMove b m) b1 = Some b3"
    and b': "b' = flipSide b3" by blast
  from e pr have pt: "move_piece m \<noteq> PAWN" "move_piece m \<noteq> KING"
    by (auto simp add: makeMove_entry_def Let_def)
  have ic: "\<not> isCastlingMove b m" using pt by (simp add: isCastlingMove_def)
  have "pawnKey b1 = pawnKey b"
    using pawnKey_updateHash_not_pawn [OF h pt(1)] by (simp add: bumpCounters_def storeHistory_def)
  then show ?thesis
    using pawnKey_piecesOnly_promotion [of T m _ _ b1 b3] p ic pt b'
    by (simp add: pawnKey_prims)
qed

lemma consistent_promotionPosition: "consistent promotionPosition"
  unfolding promotionPosition_def
  by (intro consistent_placePiece consistent_emptyBoard)
    (simp_all add: board_prims emptyBoard_def)

lemma fields_promotionPosition:
  "board promotionPosition = (\<lambda>sq. NoPiece)(60 := BlackKing, 4 := WhiteKing, 48 := WhitePawn)"
  "sideToMove promotionPosition = White"
  "enPassantSquare promotionPosition = NO_SQ"
  "pawnKey promotionPosition = 0"
  by (simp_all add: promotionPosition_def board_prims sideToMove_prims enPassantSquare_prims
      pawnKey_prims emptyBoard_def)

lemma moveContract_promotionPosition: "moveContract promotionPosition pawnA7A8Queen"
  by (simp add: moveContract_def pawnA7A8Queen_def Let_def fields_promotionPosition NO_SQ_def)

theorem promotion_pawnKey_witness:
  "move_promoted pawnA7A8Queen \<and>
   (\<exists>b' nnue'. makeMove demoTables True pawnA7A8Queen (promotionPosition, []) = Some (b', nnue') \<and>
      pawnKey b' = pawnKey promotionPosition \<and>
      pawnKey b' \<noteq> pawnKey promotionPosition XOR updateKeyPiece demoTables WhitePawn 48)"
proof -
  obtain b' n' where mk: "makeMove demoTables True pawnA7A8Queen (promotionPosition, []) = Some (b', n')"
    using makeMove_contract [OF consistent_promotionPosition moveContract_promotionPosition,
        of demoTables True "[]" True] by blast
  have pr: "move_promoted pawnA7A8Queen" by (simp add: pawnA7A8Queen_def)
  have "pawnKey b' = pawnKey promotionPosition"
    using promotion_pawnKey [OF mk pr] by (simp add: pawnA7A8Queen_def fields_promotionPosition)
  moreover have "updateKeyPiece demoTables WhitePawn 48 \<noteq> 0"
    by (simp add: updateKeyPiece_def demoTables_def)
  ultimately show ?thesis using mk pr by (auto simp add: fields_promotionPosition)
qed

subsection \<open>The loader and its trailing fields\<close>

lemma bindE_Inr: "bindE (Inr v) f = f v"
  by (simp add: bindE_def)

lemma bindE_Inl: "bindE (Inl e) f = Inl e"
  by (simp add: bindE_def)

text \<open>
  C8. A descriptor of exactly five fields (half-move clock present, move counter
  absent) does not get the default move counter: \<^verbatim>\<open>params.size() > 4\<close> holds, so the
  loader reads \<^verbatim>\<open>params[5]\<close>, one past the end of the vector. With four fields both
  defaults are taken (\<open>applyFen_four_fields\<close> below).
\<close>

theorem applyFen_five_fields:
  assumes "length params = 5"
  shows "applyFenFields T params bn = Inl IndexOutOfRange"
  using assms
  by (simp add: applyFenFields_def Let_def param_def bindE_Inr bindE_Inl)

theorem applyFen_five_fields_witness:
  "length (splitInput ''rnbqkbnr/pppppppp/8/8/8/8/PPPPPPPP/RNBQKBNR w KQkq - 0'') = 5 \<and>
   applyFen demoTables ''rnbqkbnr/pppppppp/8/8/8/8/PPPPPPPP/RNBQKBNR w KQkq - 0'' (newBoard, [])
     = Inl IndexOutOfRange"
proof -
  have l: "length (splitInput ''rnbqkbnr/pppppppp/8/8/8/8/PPPPPPPP/RNBQKBNR w KQkq - 0'') = 5"
    by (simp add: splitInput_def)
  from applyFen_five_fields [OF l] l show ?thesis by (simp add: applyFen_def)
qed

text \<open>With four fields the two defaults are taken.\<close>

lemma stoi_defaults: "stoi ''0'' = Inr 0" "stoi ''1'' = Inr 1"
  by (simp_all add: stoi_def isspace_def isdigit_def digitsValue_def Let_def)

lemma applyFen_four_fields:
  assumes "length params = 4" and "applyFenFields T params bn = Inr (b', nnue')"
  shows "halfMoveClock b' = 0 \<and> fullMoveNumber b' = 2"
  using assms
  by (auto simp add: applyFenFields_def Let_def param_def bindE_def stoi_defaults
      split: sum.splits if_splits)

lemma enPassantFromString_none: "enPassantFromString ''-'' = Inr NO_SQ"
  by (simp add: enPassantFromString_def)

lemma placement_castle:
  "placement T ''4k3/8/8/8/8/8/8/4K2R'' 56 b =
     Inr (placePiece WhiteRook 7 (placePiece WhiteKing 4 (placePiece BlackKing 60 b)))"
  by (simp add: charToPiece_def isdigit_def squarePlus_def Let_def)

lemma load_castle_four:
  "\<exists>b n. applyFen demoTables ''4k3/8/8/8/8/8/8/4K2R w K -'' (newBoard, []) = Inr (b, n) \<and>
     halfMoveClock b = 0 \<and> fullMoveNumber b = 2"
  by (simp add: applyFen_def splitInput_def applyFenFields_def Let_def param_def bindE_Inr
      placement_castle enPassantFromString_none stoi_defaults del: placement.simps)

subsection \<open>Incremental keys against the fold from scratch\<close>

lemma upt64:
  "[0..<64] =
     ([0, 1, 2, 3, 4, 5, 6, 7] @
      [8, 9, 10, 11, 12, 13, 14, 15] @
      [16, 17, 18, 19, 20, 21, 22, 23] @
      [24, 25, 26, 27, 28, 29, 30, 31] @
      [32, 33, 34, 35, 36, 37, 38, 39] @
      [40, 41, 42, 43, 44, 45, 46, 47] @
      [48, 49, 50, 51, 52, 53, 54, 55] @
      [56, 57, 58, 59, 60, 61, 62, 63] :: nat list)"
  by code_simp

lemma zobristHash_cong:
  "board b' = board b \<Longrightarrow> enPassantSquare b' = enPassantSquare b \<Longrightarrow>
   sideToMove b' = sideToMove b \<Longrightarrow> castlingRights b' = castlingRights b \<Longrightarrow>
   zobristHash T b' = zobristHash T b"
  by (simp add: zobristHash_def updateKeyCastling_def cong: if_cong)

text \<open>The loader leaves the from-scratch hash in \<open>hashKey\<close>.\<close>

lemma zobristHash_updates:
  "zobristHash T (b\<lparr>hashKey := k\<rparr>) = zobristHash T b"
  "zobristHash T (b\<lparr>hashHistory := hh\<rparr>) = zobristHash T b"
  "zobristHash T (b\<lparr>stateHistory := sh\<rparr>) = zobristHash T b"
  "zobristHash T (b\<lparr>pawnKeyHistory := ph\<rparr>) = zobristHash T b"
  by (rule zobristHash_cong; simp)+

lemma applyFenFields_hashKey:
  assumes "applyFenFields T params bn = Inr (b, n)"
  shows "hashKey b = zobristHash T b"
  using assms
  by (auto simp add: applyFenFields_def Let_def bindE_def zobristHash_updates
      split: sum.splits if_splits)

lemma load_castle:
  "\<exists>b n. applyFen T castleDescriptor (newBoard, []) = Inr (b, n) \<and>
     board b = (\<lambda>sq. NoPiece)(60 := BlackKing, 4 := WhiteKing, 7 := WhiteRook) \<and>
     sideToMove b = White \<and> castlingRights b = wk \<and> enPassantSquare b = NO_SQ"
  apply (simp add: applyFen_def castleDescriptor_def splitInput_def applyFenFields_def Let_def param_def bindE_Inr
      placement_castle enPassantFromString_none stoi_defaults del: placement.simps)
  apply (simp add: board_prims sideToMove_prims castlingRights_prims castlingFromString_def readCastleString_def removeCastlingRightsAll_def
      newBoard_def wk_def wq_def bk_def bq_def)
  done


lemma hashKey_prims:
  "hashKey (removePiece pc sq b) = hashKey b"
  "hashKey (placePiece pc sq b) = hashKey b"
  "hashKey (movePiece pc f t b) = hashKey b"
  "hashKey (flipSide b) = hashKey b"
  by (simp_all add: removePiece_def placePiece_def movePiece_def flipSide_def)

lemma sideToMove_flipSide: "sideToMove (flipSide b) = flipColor (sideToMove b)"
  by (simp add: flipSide_def)

lemma xor_cancel_left: "x XOR (x XOR y) = y" for x y :: U64
  by (simp flip: xor.assoc)

text \<open>
  C2. The incremental \<open>hashKey\<close> leaves the from-scratch fold at the first castling
  move. Load the descriptor of \<open>castlePosition\<close>: \<open>hashKey\<close> is the fold. Castle king
  side: the hash section XORs the king out at e1 and in at the square of the move's
  destination, h1, where the rook stood, while the piece section puts the king on g1.
  Afterwards \<open>hashKey\<close> differs from the fold over the new board by the two king
  constants of h1 and g1, whatever the tables.
\<close>

theorem castling_hashKey_drift:
  "\<exists>b n b' n'. applyFen T castleDescriptor (newBoard, []) = Inr (b, n) \<and>
     hashKey b = zobristHash T b \<and>
     makeMove T u whiteCastlesShort (b, n) = Some (b', n') \<and>
     hashKey b' =
       zobristHash T b' XOR updateKeyPiece T WhiteKing 7 XOR updateKeyPiece T WhiteKing 6"
proof -
  let ?m = whiteCastlesShort
  obtain b n where ld: "applyFen T castleDescriptor (newBoard, []) = Inr (b, n)"
    and bd: "board b = (\<lambda>sq. NoPiece)(60 := BlackKing, 4 := WhiteKing, 7 := WhiteRook)"
    and stm: "sideToMove b = White" and cr: "castlingRights b = wk"
    and ep: "enPassantSquare b = NO_SQ"
    using load_castle [of T] by blast
  have hk: "hashKey b = zobristHash T b"
    using ld applyFenFields_hashKey by (simp add: applyFen_def)
  have zb: "zobristHash T b =
      updateKeyPiece T WhiteKing 4 XOR updateKeyPiece T WhiteRook 7 XOR
      updateKeyPiece T BlackKing 60 XOR castlingKeys T wk XOR updateKeySideToMove T"
    by (simp add: zobristHash_def Let_def bd stm cr ep upt64 updateKeyCastling_def xor.assoc)
  have m: "move_from ?m = 4" "move_to ?m = 7" "move_piece ?m = KING" "\<not> move_promoted ?m"
    by (simp_all add: whiteCastlesShort_def)
  let ?b0 = "bumpCounters (storeHistory (board b (move_to ?m)) b)"
  have ic: "isCastlingMove b ?m"
    by (simp add: isCastlingMove_def m colorOf_def bd)
  have entry: "makeMove_entry b ?m"
    by (simp add: makeMove_entry_def m Let_def MAX_SQ_def bd stm)
  have "\<exists>b1. updateHash T ?m (board b (move_to ?m)) (move_to ?m = enPassantSquare b)
           (isCastlingMove b ?m) ?b0 = Some b1 \<and>
         hashKey b1 = hashKey b XOR castlingKeys T wk XOR updateKeyPiece T WhiteRook 7 XOR
           updateKeyPiece T WhiteRook 5 XOR updateKeyPiece T WhiteKing 4 XOR
           updateKeyPiece T WhiteKing 7 XOR updateKeySideToMove T XOR castlingKeys T 0 \<and>
         castlingRights b1 = 0 \<and> enPassantSquare b1 = NO_SQ"
    using ic
    by (simp add: updateHash_def hashClearEnPassant_def hashCastlingRook_def updateByPieceType_def
        hashCapture_def hashMover_def hashSideAndCastling_def xorHashKey_def removeCastlingRightsAll_def
        bumpCounters_def storeHistory_def updateKeyCastling_def castlingRook_def castlingRookSq_def
        file_rank_square_def square_rank_def FILE_F_def
        Let_def m bd stm cr ep NO_SQ_def wk_def wq_def xor.assoc)
  then obtain b1 where
    h: "updateHash T ?m (board b (move_to ?m)) (move_to ?m = enPassantSquare b)
           (isCastlingMove b ?m) ?b0 = Some b1"
    and hk1: "hashKey b1 = hashKey b XOR castlingKeys T wk XOR updateKeyPiece T WhiteRook 7 XOR
           updateKeyPiece T WhiteRook 5 XOR updateKeyPiece T WhiteKing 4 XOR
           updateKeyPiece T WhiteKing 7 XOR updateKeySideToMove T XOR castlingKeys T 0"
    and cr1: "castlingRights b1 = 0" and ep1: "enPassantSquare b1 = NO_SQ"
    by blast
  have c1: "coreEq b1 ?b0" by (rule coreEq_updateHash [OF h])
  then have eqs: "board b1 = board b" "sideToMove b1 = White"
    using stm by (simp_all add: coreEq_def bumpCounters_def storeHistory_def)
  let ?b3 = "placePiece WhiteRook 5 (placePiece WhiteKing 6 (removePiece WhiteRook 7 (removePiece WhiteKing 4 b1)))"
  have p: "piecesOnly T ?m (board b (move_to ?m)) (move_to ?m = enPassantSquare b) (isCastlingMove b ?m) b1 = Some ?b3"
    using ic piecesOnly_castling [OF m(4), of T _ _ b1] eqs
    by (simp add: m castlingRook_def castlingRookSq_def castlingKingSq_def file_rank_square_def
        square_rank_def FILE_F_def FILE_G_def)
  obtain n' where mk: "makeMove T u ?m (b, n) = Some (flipSide ?b3, n')"
    using makeMove_SomeI [OF entry h p] by blast
  have zb': "zobristHash T (flipSide ?b3) =
      updateKeyPiece T WhiteRook 5 XOR updateKeyPiece T WhiteKing 6 XOR
      updateKeyPiece T BlackKing 60 XOR castlingKeys T 0"
    by (simp add: zobristHash_def Let_def flipSide_def board_prims sideToMove_prims
        castlingRights_prims enPassantSquare_prims eqs bd cr1 ep1 upt64 updateKeyCastling_def xor.assoc)
  have "hashKey (flipSide ?b3) =
       zobristHash T (flipSide ?b3) XOR updateKeyPiece T WhiteKing 7 XOR updateKeyPiece T WhiteKing 6"
    unfolding zb' by (simp add: hashKey_prims hk1 hk zb xor_cancel_left ac_simps)
  with ld hk mk show ?thesis by blast
qed

text \<open>With the sample tables the two constants differ, so the keys do.\<close>

lemma castling_drift_nonzero:
  "updateKeyPiece demoTables WhiteKing 7 XOR updateKeyPiece demoTables WhiteKing 6 \<noteq> 0"
  by (simp add: updateKeyPiece_def demoTables_def)

text \<open>
  The pawn key drifts as well: an en-passant capture takes the enemy pawn off the
  board and leaves its constant in \<open>pawnKey\<close>, which only follows the capturing pawn.
\<close>

lemma pawnKey_updateHash_pawn:
  assumes "updateHash T m cap ep ic b = Some b1" and "move_piece m = PAWN"
    and "\<not> move_promoted m"
  shows "pawnKey b1 =
     pawnKey b XOR updateKeyPiece T (makePiece PAWN (sideToMove b)) (move_from m) XOR
       updateKeyPiece T (makePiece PAWN (sideToMove b)) (move_to m)"
proof -
  from assms(1) obtain b2 b3 where
    s1: "hashCastlingRook T m ic (hashClearEnPassant T b) = Some b2" and
    s2: "updateByPieceType T m ep b2 = Some b3" and
    s3: "b1 = hashSideAndCastling T (hashMover T m (hashCapture T m cap ic b3))"
    by (auto simp add: updateHash_def split: Option.bind_splits)
  have "coreEq b3 b"
    by (rule coreEq_trans [OF coreEq_updateByPieceType [OF s2]
          coreEq_trans [OF coreEq_hashCastlingRook [OF s1] coreEq_hashClearEnPassant]])
  then have "sideToMove (hashCapture T m cap ic b3) = sideToMove b"
    using coreEq_hashCapture [of T m cap ic b3] by (simp add: coreEq_def)
  then show ?thesis
    using pawnKey_hashCastlingRook [OF s1] pawnKey_updateByPieceType [OF s2] assms(2,3)
    by (simp add: s3 pawnKey_hash_steps hashMover_def Let_def xorHashKey_def xorPawnKey_def
        xor.assoc)
qed

lemma enPassant_pawnKey:
  assumes mk: "makeMove T u m (b, nnue) = Some (b', nnue')"
    and pt: "move_piece m = PAWN" and np: "\<not> move_promoted m"
    and ep: "move_to m = enPassantSquare b" and empty: "board b (move_to m) = NoPiece"
  shows "pawnKey b' =
     pawnKey b XOR updateKeyPiece T (makePiece PAWN (sideToMove b)) (move_from m) XOR
       updateKeyPiece T (makePiece PAWN (sideToMove b)) (move_to m)"
proof -
  from makeMove_SomeD [OF mk] obtain b1 b3 where
    h: "updateHash T m (board b (move_to m)) (move_to m = enPassantSquare b) (isCastlingMove b m)
        (bumpCounters (storeHistory (board b (move_to m)) b)) = Some b1" and
    p: "piecesOnly T m (board b (move_to m)) (move_to m = enPassantSquare b) (isCastlingMove b m) b1 = Some b3"
    and b': "b' = flipSide b3" by blast
  have ic: "\<not> isCastlingMove b m" using pt by (simp add: isCastlingMove_def)
  have "pawnKey b3 = pawnKey b1"
    using p ic ep pt np empty
    by (auto simp add: piecesOnly_def updatePieces_def piecesCapture_def piecesMover_def Let_def
        piece_prims pawnKey_prims split: if_splits Option.bind_splits)
  then show ?thesis
    using pawnKey_updateHash_pawn [OF h pt np] b'
    by (simp add: pawnKey_prims bumpCounters_def storeHistory_def)
qed

subsection \<open>The evaluator calls of a king move\<close>

text \<open>The move as a whole, with the calls the piece section has made.\<close>

lemma makeMove_SomeI_exact:
  assumes entry: "makeMove_entry b m"
    and hash: "updateHash T m (board b (move_to m)) (move_to m = enPassantSquare b) (isCastlingMove b m)
                 (bumpCounters (storeHistory (board b (move_to m)) b)) = Some b1"
    and pieces: "updatePieces T u m (board b (move_to m)) (move_to m = enPassantSquare b)
      (isCastlingMove b m) (b1, if u then n @ [Push] else n) = Some (b3, n3)"
  shows "makeMove T u m (b, n) = Some (flipSide b3, n3)"
  using assms
  by (simp add: makeMove_def Let_def isCastlingMove_prelude enPassantSquare_prelude)

text \<open>
  Castling: when the test of the castling branch holds, the four squares are changed
  without the evaluator and one refresh follows; when it fails, the evaluator is told
  of the two removals and the two placements.
\<close>

lemma updatePieces_castling_refresh:
  assumes "\<not> move_promoted m"
    and "bucketCrossing T (sideToMove b) (move_from m) (castlingKingSq (move_from m) (move_to m))"
  shows "\<exists>b3. updatePieces T True m cap ep True (b, n) = Some (b3, n @ [Refresh b3]) \<and>
     b3 = placePiece (castlingRook (sideToMove b)) (castlingRookSq (move_from m) (move_to m))
           (placePiece (makePiece (move_piece m) (sideToMove b)) (castlingKingSq (move_from m) (move_to m))
             (removePiece (castlingRook (sideToMove b)) (move_to m)
               (removePiece (makePiece (move_piece m) (sideToMove b)) (move_from m) b)))"
  using assms
  by (simp add: updatePieces_def piecesCapture_def piecesMover_def Let_def refresh_def)


text \<open>
  A king move that is not castling goes through \<^verbatim>\<open>movePiece\<close>, which refreshes when its test
  holds; a piece captured on the destination has been removed before, incrementally.
\<close>

lemma updatePieces_king_quiet_refresh:
  assumes "\<not> move_promoted m" "move_piece m = KING" "board b (move_to m) = NoPiece"
    and "bucketCrossing T (sideToMove b) (move_from m) (move_to m)"
  shows "\<exists>b3. updatePieces T True m NoPiece ep False (b, n) = Some (b3, n @ [Refresh b3]) \<and>
     b3 = movePiece (makePiece KING (sideToMove b)) (move_from m) (move_to m) b"
  using assms
  by (simp add: updatePieces_def piecesCapture_def piecesMover_def Let_def refresh_def
      movePieceT_def type_of_makePiece sideToMove_prims)

lemma updatePieces_king_capture_refresh:
  assumes "\<not> move_promoted m" "move_piece m = KING" "board b (move_to m) = cap" "cap \<noteq> NoPiece"
    and "bucketCrossing T (sideToMove b) (move_from m) (move_to m)"
  shows "\<exists>b3. updatePieces T True m cap ep False (b, n) =
       Some (b3, n @ [AccumulatorRemove (type_of_piece cap) (accColor cap) (move_to m)
                        (lsb (pieces b KING White)) (lsb (pieces b KING Black)), Refresh b3]) \<and>
     piecesBB b3 = piecesBB (movePiece (makePiece KING (sideToMove b)) (move_from m) (move_to m)
                     (removePiece cap (move_to m) b)) \<and>
     board b3 = board (movePiece (makePiece KING (sideToMove b)) (move_from m) (move_to m)
                     (removePiece cap (move_to m) b))"
  using assms
  by (simp add: updatePieces_def piecesCapture_def piecesMover_def Let_def refresh_def
      movePieceT_def removePieceT_def type_of_makePiece sideToMove_prims board_prims
      piecesBB_prims xorPawnKey_def removePiece_def)

text \<open>
  Two squares on neighbouring files, one on each side of the line between the d-file and
  the e-file, are on the d-file and the e-file: their files add up to 7.
\<close>

lemma crossing_step_files:
  assumes "crossesMirrorLine a c" "neighbourFiles a c"
  shows "square_file a + square_file c = 7"
  using assms by (auto simp add: crossesMirrorLine_def neighbourFiles_def)

text \<open>
  When the test of the code holds for a king move, castling included (the bucket table
  gives different buckets to the king's origin and to the square it ends up on, or the
  files of the two squares add up to 7, as they do when the king steps across the
  central line), \<open>makeMove\<close> returns and the last call the evaluator receives is a full
  refresh, handed the board with the pieces of the new position.
\<close>

lemma king_move_refresh:
  assumes mc: "moveContract b m" and pt: "move_piece m = KING"
    and cross: "bucketCrossing T (sideToMove b) (move_from m) (kingDestination b m) \<or>
                (crossesMirrorLine (move_from m) (kingDestination b m) \<and>
                 neighbourFiles (move_from m) (kingDestination b m))"
  shows "\<exists>b' bm. makeMove T True m (b, nnue) =
             Some (b', nnue @ [Push] @ capturedRemoval b m @ [Refresh bm]) \<and>
           piecesBB bm = piecesBB b' \<and> board bm = board b' \<and>
           board bm (kingDestination b m) = makePiece KING (sideToMove b)"
proof -
  let ?stm = "sideToMove b" and ?f = "move_from m" and ?t = "move_to m"
  let ?cap = "board b ?t"
  let ?K = "makePiece KING ?stm"
  let ?b0 = "bumpCounters (storeHistory ?cap b)"
  from cross have bc: "bucketCrossing T ?stm ?f (kingDestination b m)"
    using crossing_step_files [of ?f "kingDestination b m"] by (auto simp add: bucketCrossing_def)
  from mc pt have f: "?f < 64" and t: "?t < 64" and ft: "?f \<noteq> ?t"
    and capk: "type_of_piece ?cap \<noteq> KING" and np: "\<not> move_promoted m"
    by (auto simp add: moveContract_def Let_def split: if_splits)
  from mc pt np have fromp: "board b ?f = ?K"
    by (simp add: moveContract_def Let_def)
  have K: "?K \<noteq> NoPiece" by (simp add: makePiece_eq_NoPiece)
  have entry: "makeMove_entry b m"
    using f t pt np capk by (simp add: makeMove_entry_def Let_def MAX_SQ_def makePiece_eq_NoPiece)
  have "\<exists>b1. updateHash T m ?cap (?t = enPassantSquare b) (isCastlingMove b m) ?b0 = Some b1"
    using pt by (intro updateHash_Some) (simp_all add: isCastlingMove_def bumpCounters_def storeHistory_def)
  then obtain b1 where
    h: "updateHash T m ?cap (?t = enPassantSquare b) (isCastlingMove b m) ?b0 = Some b1" by blast
  have "coreEq b1 ?b0" by (rule coreEq_updateHash [OF h])
  then have eqs: "piecesBB b1 = piecesBB b" "board b1 = board b" "sideToMove b1 = ?stm"
    by (simp_all add: coreEq_def bumpCounters_def storeHistory_def)
  have ks: "pieces b1 KING c = pieces b KING c" for c by (simp add: pieces_def eqs)
  show ?thesis
  proof (cases "isCastlingMove b m")
    case True
    then have kd: "kingDestination b m = castlingKingSq ?f ?t" by (simp add: kingDestination_def)
    obtain b3 where
      u: "updatePieces T True m ?cap (?t = enPassantSquare b) True (b1, nnue @ [Push]) =
            Some (b3, (nnue @ [Push]) @ [Refresh b3])"
      and b3: "b3 = placePiece (castlingRook ?stm) (castlingRookSq ?f ?t)
                 (placePiece (makePiece (move_piece m) ?stm) (castlingKingSq ?f ?t)
                   (removePiece (castlingRook ?stm) ?t
                     (removePiece (makePiece (move_piece m) ?stm) ?f b1)))"
      using updatePieces_castling_refresh [OF np, of T b1 ?cap "?t = enPassantSquare b" "nnue @ [Push]"]
        bc kd eqs by auto
    have mk: "makeMove T True m (b, nnue) = Some (flipSide b3, (nnue @ [Push]) @ [Refresh b3])"
      using makeMove_SomeI_exact [OF entry h, of True nnue b3 "(nnue @ [Push]) @ [Refresh b3]"] u True
      by simp
    have "board b3 (castlingKingSq ?f ?t) = ?K"
      using castling_squares [OF f, of ?t] pt by (simp add: b3 board_prims)
    moreover have "capturedRemoval b m = []" using True by (simp add: capturedRemoval_def)
    ultimately show ?thesis
      using mk kd by (auto simp add: flipSide_def)
  next
    case nc: False
    then have kd: "kingDestination b m = ?t" by (simp add: kingDestination_def)
    have notrook: "?cap \<noteq> makePiece ROOK ?stm"
    proof
      assume r: "?cap = makePiece ROOK ?stm"
      then have "?cap \<noteq> NoPiece" by (simp add: makePiece_eq_NoPiece)
      with r fromp K pt have "isCastlingMove b m"
        by (simp add: isCastlingMove_def colorOf_accColor type_of_makePiece accColor_makePiece)
      with nc show False by simp
    qed
    show ?thesis
    proof (cases "?cap = NoPiece")
      case True
      obtain b3 where
        u: "updatePieces T True m NoPiece (?t = enPassantSquare b) False (b1, nnue @ [Push]) =
              Some (b3, (nnue @ [Push]) @ [Refresh b3])"
        and b3: "b3 = movePiece (makePiece KING (sideToMove b1)) ?f ?t b1"
        using updatePieces_king_quiet_refresh [OF np pt, of b1 T "?t = enPassantSquare b" "nnue @ [Push]"]
          bc kd eqs True by auto
      have mk: "makeMove T True m (b, nnue) = Some (flipSide b3, (nnue @ [Push]) @ [Refresh b3])"
        using makeMove_SomeI_exact [OF entry h, of True nnue b3 "(nnue @ [Push]) @ [Refresh b3]"] u True nc
        by simp
      have "board b3 ?t = ?K" by (simp add: b3 board_prims eqs)
      moreover have "capturedRemoval b m = []" using True by (simp add: capturedRemoval_def)
      ultimately show ?thesis
        using mk kd by (auto simp add: flipSide_def)
    next
      case False
      let ?rm = "AccumulatorRemove (type_of_piece ?cap) (accColor ?cap) ?t
                   (lsb (pieces b KING White)) (lsb (pieces b KING Black))"
      obtain b3 where
        u: "updatePieces T True m ?cap (?t = enPassantSquare b) False (b1, nnue @ [Push]) =
              Some (b3, (nnue @ [Push]) @ [?rm, Refresh b3])"
        and b3: "board b3 = board (movePiece (makePiece KING (sideToMove b1)) ?f ?t
                     (removePiece ?cap ?t b1))"
        using updatePieces_king_capture_refresh [OF np pt _ False, of b1 T "?t = enPassantSquare b" "nnue @ [Push]"]
          bc kd eqs ks by auto
      have mk: "makeMove T True m (b, nnue) = Some (flipSide b3, (nnue @ [Push]) @ [?rm, Refresh b3])"
        using makeMove_SomeI_exact [OF entry h, of True nnue b3 "(nnue @ [Push]) @ [?rm, Refresh b3]"] u nc
        by simp
      have "board b3 ?t = ?K" by (simp add: b3 board_prims eqs)
      moreover have "capturedRemoval b m = [?rm]" using False nc by (simp add: capturedRemoval_def Let_def)
      ultimately show ?thesis
        using mk kd by (auto simp add: flipSide_def)
    qed
  qed
qed






end
